theory Spec2Isabelle
  imports Complex_Main "HOL-Library.Sublist" "HOL-Library.Char_ord" "HOL-Library.List_Lexorder"
begin

section \<open>JavaScript values and the helpers of the underscore library\<close>

text \<open>
  Plain JavaScript objects are association lists in enumeration order. A property that
  exists is overwritten in place and a new one is appended, which is the order
  \<open>Object.keys\<close> reports for property names that are not canonical array indices; field
  paths of documents are taken to be such names throughout.
\<close>

type_synonym 'v js_object = "(string \<times> 'v) list"

text \<open>The assignment \<open>obj[k] = v\<close>.\<close>

fun js_set :: "string \<Rightarrow> 'v \<Rightarrow> 'v js_object \<Rightarrow> 'v js_object" where
  "js_set k v [] = [(k, v)]"
| "js_set k v ((k', v') # kvs) =
     (if k' = k then (k, v) # kvs else (k', v') # js_set k v kvs)"

text \<open>The read \<open>obj[k]\<close>; \<open>None\<close> stands for \<open>undefined\<close>.\<close>

fun js_get :: "'v js_object \<Rightarrow> string \<Rightarrow> 'v option" where
  "js_get [] k = None"
| "js_get ((k', v) # kvs) k = (if k' = k then Some v else js_get kvs k)"

definition js_keys :: "'v js_object \<Rightarrow> string list" where
  "js_keys obj = map fst obj"

text \<open>\<open>delete obj[k]\<close>.\<close>

definition js_delete :: "string \<Rightarrow> 'v js_object \<Rightarrow> 'v js_object" where
  "js_delete k obj = filter (\<lambda>kv. fst kv \<noteq> k) obj"

text \<open>
  \<open>underscore.uniq(xs, false, f)\<close>: the first element of every class of equal \<open>f\<close>-values,
  in the order of the input. \<open>underscore.uniq(xs)\<close> is \<open>uniq_by id\<close>.
\<close>

fun uniq_seen :: "('a \<Rightarrow> 'b) \<Rightarrow> 'b list \<Rightarrow> 'a list \<Rightarrow> 'a list" where
  "uniq_seen f seen [] = []"
| "uniq_seen f seen (x # xs) =
     (if f x \<in> set seen then uniq_seen f seen xs else x # uniq_seen f (seen @ [f x]) xs)"

definition uniq_by :: "('a \<Rightarrow> 'b) \<Rightarrow> 'a list \<Rightarrow> 'a list" where
  "uniq_by f xs = uniq_seen f [] xs"

definition uniq :: "'a list \<Rightarrow> 'a list" where
  "uniq xs = uniq_by (\<lambda>x. x) xs"

text \<open>\<open>underscore.difference(xs, ys)\<close>: the elements of \<open>xs\<close> that are not in \<open>ys\<close>.\<close>

definition difference :: "'a list \<Rightarrow> 'a list \<Rightarrow> 'a list" where
  "difference xs ys = filter (\<lambda>x. x \<notin> set ys) xs"

text \<open>\<open>underscore.intersection(xs, ys)\<close>: the distinct elements of \<open>xs\<close> that are in \<open>ys\<close>.\<close>

definition intersection :: "'a list \<Rightarrow> 'a list \<Rightarrow> 'a list" where
  "intersection xs ys = filter (\<lambda>x. x \<in> set ys) (uniq xs)"

text \<open>
  \<open>underscore.sortBy(xs, f)\<close> sorts by the criterion and breaks ties by the position in the
  input; \<open>sort_key\<close> is that stable sort.
\<close>

definition sortBy :: "('a \<Rightarrow> 'k::linorder) \<Rightarrow> 'a list \<Rightarrow> 'a list" where
  "sortBy f xs = sort_key f xs"

text \<open>\<open>underscore.object(pairs)\<close> assigns the pairs to a fresh object one after the other.\<close>

definition js_object_of :: "(string \<times> 'v) list \<Rightarrow> 'v js_object" where
  "js_object_of kvs = fold (\<lambda>kv obj. js_set (fst kv) (snd kv) obj) kvs []"

text \<open>
  \<open>s.replace(/\<bslash>./g, r)\<close>: every period of \<open>s\<close> is replaced.
\<close>

fun replace_periods :: "string \<Rightarrow> string \<Rightarrow> string" where
  "replace_periods r [] = []"
| "replace_periods r (c # cs) =
     (if c = CHR ''.'' then r @ replace_periods r cs else c # replace_periods r cs)"

text \<open>
  \<open>s.replace(p, r)\<close> with a string pattern \<open>p\<close>: only the first occurrence of \<open>p\<close> is
  replaced.
\<close>

fun replace_first :: "string \<Rightarrow> string \<Rightarrow> string \<Rightarrow> string" where
  "replace_first p r [] = (if p = [] then r else [])"
| "replace_first p r (c # cs) =
     (if prefix p (c # cs) then r @ drop (length p) (c # cs)
      else c # replace_first p r cs)"

text \<open>The decimal text JavaScript gives an integer used as a property name.\<close>

fun nat_string :: "nat \<Rightarrow> string" where
  "nat_string n =
     (if n < 10 then [char_of (48 + n)]
      else nat_string (n div 10) @ [char_of (48 + n mod 10)])"

definition number_string :: "int \<Rightarrow> string" where
  "number_string i = (if i < 0 then CHR ''-'' # nat_string (nat (- i)) else nat_string (nat i))"

text \<open>Points in time; \<open>toISOString\<close> followed by \<open>new Date\<close> gives the same point back.\<close>

type_synonym date = nat

section \<open>Field and collection statistics (collection\_statistics.js)\<close>

datatype field_mode = Normal | Hash

record FieldStatistics =
  mode :: field_mode
  cardinality :: int
  longest :: int
  arrayPrefixes :: "string list"

record CollectionStatistics =
  fieldStatistics :: "FieldStatistics js_object"
  knownArrayPrefixes :: "string list"
  lastSampleTime :: date

text \<open>The serialized form; \<open>data.fieldStatistics\<close> may be missing.\<close>

record CollectionStatisticsJSON =
  json_fieldStatistics :: "FieldStatistics js_object option"
  json_knownArrayPrefixes :: "string list"
  json_lastSampleTime :: date

definition mongoFieldNamePartSeparator :: string where
  "mongoFieldNamePartSeparator = ''_____''"

definition CollectionStatistics_constructor :: "CollectionStatisticsJSON \<Rightarrow> CollectionStatistics" where
  "CollectionStatistics_constructor data =
     \<lparr> fieldStatistics =
         fold (\<lambda>kv obj. js_set (replace_first mongoFieldNamePartSeparator ''.'' (fst kv)) (snd kv) obj)
           (case json_fieldStatistics data of None \<Rightarrow> [] | Some fs \<Rightarrow> fs) [],
       knownArrayPrefixes = json_knownArrayPrefixes data,
       lastSampleTime = json_lastSampleTime data \<rparr>"

definition CollectionStatistics_toJSON :: "CollectionStatistics \<Rightarrow> CollectionStatisticsJSON" where
  "CollectionStatistics_toJSON self =
     \<lparr> json_fieldStatistics =
         Some (fold (\<lambda>kv obj. js_set (replace_periods mongoFieldNamePartSeparator (fst kv)) (snd kv) obj)
           (fieldStatistics self) []),
       json_knownArrayPrefixes = knownArrayPrefixes self,
       json_lastSampleTime = lastSampleTime self \<rparr>"

section \<open>Indexes (mongo\_index.js)\<close>

text \<open>
  The own enumerable properties of a MongoIndex are its fields, each with a sort direction
  (a number) or the string \<open>hashed\<close>. Everything else hangs on symbols.
\<close>

datatype direction = Dir int | Hashed

text \<open>
  \<open>generateIndexName\<close> names an index \<open>auto_\<close> followed by the SHA-256 digest of its JSON
  text. The digest is not computed here: \<open>Generated kvs\<close> stands for that name of the
  fields \<open>kvs\<close>, \<open>Named s\<close> for a name given from outside.
\<close>

datatype index_name = Named string | Generated "direction js_object"

text \<open>
  A query profile (query\_profile.js). An index keeps the profiles it serves; the fields
  of a profile that this model reads through an index never change once the indexes of
  the profile exist.
\<close>

record Source =
  source :: string
  version :: string

record QueryProfile =
  namespace :: string
  exact :: "string list"
  sort :: "int js_object"
  range :: "string list"
  lastQueryTime :: date
  usageCount :: int
  sources :: "Source list"

record IndexFieldStatistics =
  reduction :: rat
  currentAverageDistinct :: rat
  lastAverageDistinct :: rat

record MongoIndex =
  index_fields :: "direction js_object"
  indexName :: index_name
  indexExists :: bool
  indexStatistics :: "IndexFieldStatistics js_object option"
  knownQueryProfiles :: "QueryProfile list"
  mongoCollectionName :: string

text \<open>\<open>new MongoIndex(index, collectionName, name)\<close>; a missing or empty name is generated.\<close>

definition MongoIndex_new :: "direction js_object \<Rightarrow> string \<Rightarrow> string option \<Rightarrow> MongoIndex" where
  "MongoIndex_new index coll name =
     \<lparr> index_fields = js_object_of index,
       indexName = (case name of None \<Rightarrow> Generated (js_object_of index)
                    | Some n \<Rightarrow> if n = [] then Generated (js_object_of index) else Named n),
       indexExists = False,
       indexStatistics = None,
       knownQueryProfiles = [],
       mongoCollectionName = coll \<rparr>"

text \<open>\<open>mongoIndexName.indexOf('auto_') == 0\<close>\<close>

definition name_starts_with_auto :: "index_name \<Rightarrow> bool" where
  "name_starts_with_auto n = (case n of Named s \<Rightarrow> prefix ''auto_'' s | Generated kvs \<Rightarrow> True)"

definition isSameAs :: "MongoIndex \<Rightarrow> MongoIndex \<Rightarrow> bool" where
  "isSameAs self otherIndex =
     (if length (index_fields self) \<noteq> length (index_fields otherIndex) then False
      else list_all2 (\<lambda>a b. fst a = fst b \<and> snd a = snd b) (index_fields self) (index_fields otherIndex))"

definition isIndexPrefixOf :: "MongoIndex \<Rightarrow> MongoIndex \<Rightarrow> bool" where
  "isIndexPrefixOf self otherIndex =
     (if length (index_fields self) \<ge> length (index_fields otherIndex) then False
      else list_all2 (\<lambda>a b. fst a = fst b \<and> snd a = snd b)
             (index_fields self) (take (length (index_fields self)) (index_fields otherIndex)))"

text \<open>
  \<open>JSON.stringify\<close> of an index: the fields in order, each name in double quotes with
  \<open>"\<close> and \<open>\<bslash>\<close> escaped, each direction as a number or as \<open>"hashed"\<close>. (Control characters,
  which JSON also escapes, do not occur in field paths.)
\<close>

definition json_quote :: "string \<Rightarrow> string" where
  "json_quote s =
     CHR 0x22 # concat (map (\<lambda>c. if c = CHR 0x22 \<or> c = CHR 0x5C then [CHR 0x5C, c] else [c]) s) @ [CHR 0x22]"

definition json_direction :: "direction \<Rightarrow> string" where
  "json_direction d = (case d of Dir n \<Rightarrow> number_string n | Hashed \<Rightarrow> json_quote ''hashed'')"

fun json_members :: "direction js_object \<Rightarrow> string" where
  "json_members [] = []"
| "json_members [kv] = json_quote (fst kv) @ '':'' @ json_direction (snd kv)"
| "json_members (kv # rest) = json_quote (fst kv) @ '':'' @ json_direction (snd kv) @ '','' @ json_members rest"

definition canonicalString :: "MongoIndex \<Rightarrow> string" where
  "canonicalString self = ''{'' @ json_members (index_fields self) @ ''}''"

definition removeField :: "string \<Rightarrow> MongoIndex \<Rightarrow> MongoIndex" where
  "removeField field self =
     self \<lparr> index_fields := js_delete field (index_fields self),
            indexName := Generated (js_delete field (index_fields self)),
            indexExists := False,
            indexStatistics := None \<rparr>"

definition addField :: "string \<Rightarrow> MongoIndex \<Rightarrow> MongoIndex" where
  "addField field self =
     self \<lparr> index_fields := js_set field (Dir 1) (index_fields self),
            indexName := Generated (js_set field (Dir 1) (index_fields self)),
            indexExists := False,
            indexStatistics := None \<rparr>"

text \<open>A single-field hashed index has a field with the direction \<open>hashed\<close>; a compound index has none.\<close>

definition hasHashedField :: "MongoIndex \<Rightarrow> bool" where
  "hasHashedField self = list_ex (\<lambda>kv. snd kv = Hashed) (index_fields self)"

section \<open>Query profiles (query\_profile.js)\<close>

record Options =
  minimumCardinality :: int
  minimumReduction :: rat
  minimumQueryCount :: int

datatype error = TypeError | NoKeyStatistics

text \<open>\<open>namespace.substr(namespace.indexOf(".") + 1)\<close>; without a period this is the whole name.\<close>

definition collectionName :: "QueryProfile \<Rightarrow> string" where
  "collectionName self =
     (case dropWhile (\<lambda>c. c \<noteq> CHR ''.'') (namespace self) of
        [] \<Rightarrow> namespace self
      | c # rest \<Rightarrow> rest)"

definition fields :: "QueryProfile \<Rightarrow> string list" where
  "fields self = uniq (exact self @ (js_keys (sort self) @ range self))"

text \<open>
  \<open>self[_keyStatistics][k]\<close> where the entry is known to exist; reading a property of a
  missing entry raises a TypeError, which every caller below checks for first.
\<close>

definition keyStat :: "FieldStatistics js_object \<Rightarrow> string \<Rightarrow> FieldStatistics" where
  "keyStat ks k = the (js_get ks k)"

text \<open>
  The test of lines 220 to 222,
  \<open>arrayPrefixes.length == 0 || arrayPrefixes.indexOf(arrayPrefix) == -1\<close>.
\<close>

definition keeps_for_prefix :: "string \<Rightarrow> FieldStatistics \<Rightarrow> bool" where
  "keeps_for_prefix arrayPrefix st =
     (length (arrayPrefixes st) = 0 \<or> arrayPrefix \<notin> set (arrayPrefixes st))"

text \<open>
  Line 221 hands the sort \<^emph>\<open>object\<close> to \<open>underscore.filter\<close>, which calls the test with each
  property \<^emph>\<open>value\<close> (a direction) and returns an array of the values kept. The test looks
  the direction up in the key statistics as if it were a field name; when there is no
  such entry, reading \<open>arrayPrefixes\<close> of \<open>undefined\<close> raises a TypeError.
\<close>

fun filter_sort_values :: "FieldStatistics js_object \<Rightarrow> string \<Rightarrow> int list \<Rightarrow> error + int list" where
  "filter_sort_values ks arrayPrefix [] = Inr []"
| "filter_sort_values ks arrayPrefix (d # ds) =
     (case js_get ks (number_string d) of
        None \<Rightarrow> Inl TypeError
      | Some st \<Rightarrow>
          (case filter_sort_values ks arrayPrefix ds of
             Inl e \<Rightarrow> Inl e
           | Inr kept \<Rightarrow> Inr (if keeps_for_prefix arrayPrefix st then d # kept else kept)))"

text \<open>The sort fields of one pass of the loop: still the object, or the array line 221 made.\<close>

datatype sort_fields = SortObject "int js_object" | SortArray "int list"

text \<open>
  Lines 238 to 242. The keys of an array are its indices; array indices enumerate before
  every other property, so they go in front of the fields already set.
\<close>

definition negateSorting :: "sort_fields \<Rightarrow> int" where
  "negateSorting s =
     (case s of
        SortObject kvs \<Rightarrow> (case kvs of [] \<Rightarrow> 1 | kv # rest \<Rightarrow> snd kv)
      | SortArray ds \<Rightarrow> (case ds of [] \<Rightarrow> 1 | d # rest \<Rightarrow> d))"

definition set_sort_fields :: "sort_fields \<Rightarrow> direction js_object \<Rightarrow> direction js_object" where
  "set_sort_fields s index =
     (case s of
        SortObject kvs \<Rightarrow>
          fold (\<lambda>kv idx. js_set (fst kv) (Dir (snd kv * negateSorting s)) idx) kvs index
      | SortArray ds \<Rightarrow>
          zip (map nat_string [0..<length ds]) (map (\<lambda>d. Dir (d * negateSorting s)) ds) @ index)"

text \<open>
  The body of \<open>arrayPrefixes.forEach\<close> (lines 211 to 253) for one array prefix; \<open>None\<close> is
  the \<open>null\<close> of line 206, and \<open>if (arrayPrefix)\<close> is also false for an empty string.
  \<open>fields_for_prefix\<close> is line 220 and line 222, \<open>sort_for_prefix\<close> line 221, \<open>index_for_prefix\<close>
  the three loops that fill \<open>index\<close>, and \<open>compound_for_prefix\<close> the compound index of the
  prefix, if it has a field.
\<close>

definition fields_for_prefix :: "FieldStatistics js_object \<Rightarrow> string option \<Rightarrow> string list \<Rightarrow> string list" where
  "fields_for_prefix ks arrayPrefix fs =
     (case arrayPrefix of
        None \<Rightarrow> fs
      | Some p \<Rightarrow> if p = [] then fs else filter (\<lambda>field. keeps_for_prefix p (keyStat ks field)) fs)"

definition sort_for_prefix :: "FieldStatistics js_object \<Rightarrow> string option \<Rightarrow> int js_object \<Rightarrow> error + sort_fields" where
  "sort_for_prefix ks arrayPrefix sort3 =
     (case arrayPrefix of
        None \<Rightarrow> Inr (SortObject sort3)
      | Some p \<Rightarrow>
          if p = [] then Inr (SortObject sort3)
          else (case filter_sort_values ks p (map snd sort3) of
                  Inl e \<Rightarrow> Inl e
                | Inr kept \<Rightarrow> Inr (SortArray kept)))"

definition index_for_prefix :: "string list \<Rightarrow> sort_fields \<Rightarrow> string list \<Rightarrow> direction js_object" where
  "index_for_prefix reducedExactFields reducedSortFields reducedRangeFields =
     fold (\<lambda>field index. js_set field (Dir 1) index) reducedRangeFields
       (set_sort_fields reducedSortFields
          (fold (\<lambda>field index. js_set field (Dir 1) index) reducedExactFields []))"

definition compound_for_prefix ::
  "FieldStatistics js_object \<Rightarrow> string \<Rightarrow> string list \<Rightarrow> int js_object \<Rightarrow> string list \<Rightarrow>
   string option \<Rightarrow> error + MongoIndex list" where
  "compound_for_prefix ks coll exact3 sort3 range3 arrayPrefix =
     (case sort_for_prefix ks arrayPrefix sort3 of
        Inl e \<Rightarrow> Inl e
      | Inr reducedSortFields \<Rightarrow>
          if length (js_keys (index_for_prefix (fields_for_prefix ks arrayPrefix exact3)
                                reducedSortFields (fields_for_prefix ks arrayPrefix range3))) > 0
          then Inr [MongoIndex_new
                      (index_for_prefix (fields_for_prefix ks arrayPrefix exact3)
                         reducedSortFields (fields_for_prefix ks arrayPrefix range3))
                      coll None]
          else Inr [])"

text \<open>\<open>forEach\<close> over the array prefixes; an exception ends the whole computation.\<close>

fun compounds_for_prefixes ::
  "FieldStatistics js_object \<Rightarrow> string \<Rightarrow> string list \<Rightarrow> int js_object \<Rightarrow> string list \<Rightarrow>
   string option list \<Rightarrow> error + MongoIndex list" where
  "compounds_for_prefixes ks coll exact3 sort3 range3 [] = Inr []"
| "compounds_for_prefixes ks coll exact3 sort3 range3 (p # ps) =
     (case compound_for_prefix ks coll exact3 sort3 range3 p of
        Inl e \<Rightarrow> Inl e
      | Inr here \<Rightarrow>
          (case compounds_for_prefixes ks coll exact3 sort3 range3 ps of
             Inl e \<Rightarrow> Inl e
           | Inr later \<Rightarrow> Inr (here @ later)))"

text \<open>
  The fields that go into the compound indexes and the array prefixes they reference
  (lines 166 to 207), once every field is known to have statistics.
\<close>

definition sortedExact :: "FieldStatistics js_object \<Rightarrow> QueryProfile \<Rightarrow> string list" where
  "sortedExact ks self = sortBy (\<lambda>key. - cardinality (keyStat ks key)) (exact self)"

definition sortedRange :: "FieldStatistics js_object \<Rightarrow> QueryProfile \<Rightarrow> string list" where
  "sortedRange ks self = sortBy (\<lambda>key. cardinality (keyStat ks key)) (range self)"

definition unIndexableFields :: "FieldStatistics js_object \<Rightarrow> QueryProfile \<Rightarrow> string list" where
  "unIndexableFields ks self =
     filter (\<lambda>field. mode (keyStat ks field) \<noteq> Normal)
       (uniq (sortedExact ks self @ (js_keys (sort self) @ sortedRange ks self)))"

definition cardinalityFiltered :: "Options \<Rightarrow> FieldStatistics js_object \<Rightarrow> QueryProfile \<Rightarrow> string list \<times> string list" where
  "cardinalityFiltered opts ks self =
     (let exact1 = filter (\<lambda>field. cardinality (keyStat ks field) \<ge> minimumCardinality opts) (sortedExact ks self);
          range1 = filter (\<lambda>field. cardinality (keyStat ks field) \<ge> minimumCardinality opts) (sortedRange ks self)
      in if length exact1 + length (js_keys (sort self)) + length range1 = 0
         then (sortedExact ks self, sortedRange ks self)
         else (exact1, range1))"

definition indexedExact :: "Options \<Rightarrow> FieldStatistics js_object \<Rightarrow> QueryProfile \<Rightarrow> string list" where
  "indexedExact opts ks self =
     filter (\<lambda>field. field \<notin> set (unIndexableFields ks self)) (fst (cardinalityFiltered opts ks self))"

definition indexedSort :: "FieldStatistics js_object \<Rightarrow> QueryProfile \<Rightarrow> int js_object" where
  "indexedSort ks self =
     js_object_of (filter (\<lambda>field. fst field \<notin> set (unIndexableFields ks self)) (sort self))"

definition indexedRange :: "Options \<Rightarrow> FieldStatistics js_object \<Rightarrow> QueryProfile \<Rightarrow> string list" where
  "indexedRange opts ks self =
     filter (\<lambda>field. field \<notin> set (unIndexableFields ks self)) (snd (cardinalityFiltered opts ks self))"

definition referencedArrayPrefixes :: "Options \<Rightarrow> FieldStatistics js_object \<Rightarrow> QueryProfile \<Rightarrow> string list" where
  "referencedArrayPrefixes opts ks self =
     uniq (concat (map (\<lambda>fieldName. arrayPrefixes (keyStat ks fieldName))
       (indexedExact opts ks self @ (indexedRange opts ks self @ js_keys (indexedSort ks self)))))"

text \<open>Lines 202 to 207: the prefixes the loop runs over.\<close>

definition arrayPrefixesToIndex :: "Options \<Rightarrow> FieldStatistics js_object \<Rightarrow> QueryProfile \<Rightarrow> string option list" where
  "arrayPrefixesToIndex opts ks self =
     (if length (referencedArrayPrefixes opts ks self) < 2 then [None]
      else map Some (referencedArrayPrefixes opts ks self))"

text \<open>
  The getter \<open>optimizedIndexes\<close>, first evaluation. Lines 168, 169 and 190 read the
  statistics of every exact, range and sort field before anything else happens, so a
  field without statistics ends the getter with a TypeError. The getter also stores the
  sorted \<open>exact\<close> and \<open>range\<close> lists back into the profile; \<open>sortedExact\<close> and \<open>sortedRange\<close>
  are those lists.
\<close>

definition optimizedIndexes ::
  "Options \<Rightarrow> FieldStatistics js_object option \<Rightarrow> QueryProfile \<Rightarrow> error + MongoIndex list" where
  "optimizedIndexes opts keyStatistics self =
     (case keyStatistics of
        None \<Rightarrow> Inl NoKeyStatistics
      | Some ks \<Rightarrow>
          if list_ex (\<lambda>k. js_get ks k = None) (exact self @ range self @ js_keys (sort self))
          then Inl TypeError
          else
            (case compounds_for_prefixes ks (collectionName self)
                    (indexedExact opts ks self) (indexedSort ks self) (indexedRange opts ks self)
                    (arrayPrefixesToIndex opts ks self) of
               Inl e \<Rightarrow> Inl e
             | Inr compounds \<Rightarrow>
                 Inr (compounds @
                      map (\<lambda>field. MongoIndex_new [(field, Hashed)] (collectionName self) None)
                        (unIndexableFields ks self))))"

section \<open>Decomposing a query (query\_profile.js)\<close>

text \<open>
  The values of a query document: the primitives, \<open>Special\<close> for an instance of Date,
  ObjectID or DBRef, documents with their keys in enumeration order, and arrays.
\<close>

datatype qvalue = Null | Bool bool | Num int | Str string | Special
  | Doc "(string \<times> qvalue) list" | Arr "qvalue list"

text \<open>What \<open>if (v)\<close> takes for true.\<close>

definition truthy :: "qvalue \<Rightarrow> bool" where
  "truthy v = (case v of Null \<Rightarrow> False | Bool b \<Rightarrow> b | Num n \<Rightarrow> n \<noteq> 0 | Str s \<Rightarrow> s \<noteq> [] | _ \<Rightarrow> True)"

text \<open>
  The objects \<open>analyzeQuery\<close> works on; their \<open>sort\<close> stays empty until the profiles are
  built.
\<close>

record SubQuery =
  sq_exact :: "string list"
  sq_range :: "string list"

definition mergeQueryProfiles :: "SubQuery \<Rightarrow> SubQuery \<Rightarrow> SubQuery" where
  "mergeQueryProfiles one two = \<lparr> sq_exact = sq_exact one @ sq_exact two, sq_range = sq_range one @ sq_range two \<rparr>"

definition mergeSubQueries :: "SubQuery list \<Rightarrow> SubQuery list \<Rightarrow> SubQuery list" where
  "mergeSubQueries currentSubQueries newSubQueries =
     concat (map (\<lambda>subQuery. map (\<lambda>newSubQuery. mergeQueryProfiles subQuery newSubQuery) newSubQueries) currentSubQueries)"

definition trimPeriods :: "string \<Rightarrow> string" where
  "trimPeriods str =
     (let s1 = (case str of [] \<Rightarrow> [] | c # cs \<Rightarrow> if c = CHR ''.'' then cs else str)
      in if s1 \<noteq> [] \<and> last s1 = CHR ''.'' then butlast s1 else s1)"

text \<open>\<open>allSubQueries.forEach(subQuery => subQuery.exact.push(f))\<close>, and the same for \<open>range\<close>.\<close>

definition push_exact :: "string \<Rightarrow> SubQuery list \<Rightarrow> SubQuery list" where
  "push_exact f subs = map (\<lambda>subQuery. subQuery \<lparr> sq_exact := sq_exact subQuery @ [f] \<rparr>) subs"

definition push_range :: "string \<Rightarrow> SubQuery list \<Rightarrow> SubQuery list" where
  "push_range f subs = map (\<lambda>subQuery. subQuery \<lparr> sq_range := sq_range subQuery @ [f] \<rparr>) subs"

definition range_operators :: "string list" where
  "range_operators = [''$lt'', ''$lte'', ''$gt'', ''$gte'', ''$in'', ''$nin'', ''$neq'', ''$ne'',
     ''$exists'', ''$mod'', ''$all'', ''$regex'', ''$size'']"

definition ignored_operators :: "string list" where
  "ignored_operators = [''$options'', ''$hint'', ''$explain'', ''$text'']"

text \<open>
  The state of an analysis: the subqueries so far and \<open>allComments\<close>, the list the closure
  appends every \<open>$comment\<close> to.
\<close>

type_synonym analysis = "SubQuery list \<times> qvalue list"

definition start_analysis :: "qvalue list \<Rightarrow> analysis" where
  "start_analysis comments = ([\<lparr> sq_exact = [], sq_range = [] \<rparr>], comments)"

text \<open>
  \<open>query['$and']\<close> and \<open>query['$or']\<close>: absent or not truthy, the step is skipped; an array is
  walked; any other truthy value has no \<open>forEach\<close> or \<open>map\<close>, and the call raises a TypeError.
\<close>

definition array_operand :: "(string \<times> qvalue) list \<Rightarrow> string \<Rightarrow> error + qvalue list option" where
  "array_operand kvs key =
     (case js_get kvs key of
        None \<Rightarrow> Inr None
      | Some v \<Rightarrow>
          (case v of
             Arr xs \<Rightarrow> Inr (Some xs)
           | _ \<Rightarrow> if truthy v then Inl TypeError else Inr None))"

lemma js_get_size: "js_get kvs k = Some v \<Longrightarrow> size v < size_list (size_prod (\<lambda>_. 0) size) kvs"
  by (induction kvs) (auto split: if_splits)

lemma array_operand_size:
  "array_operand kvs k = Inr (Some xs) \<Longrightarrow> size_list size xs < size_list (size_prod (\<lambda>_. 0) size) kvs"
  by (auto simp: array_operand_def split: option.splits qvalue.splits if_splits dest!: js_get_size)

text \<open>
  \<open>analyzeQuery(query, root)\<close> (lines 659 to 748). \<open>Object.keys\<close> of \<open>null\<close> raises a
  TypeError; a number, a boolean and a date have no keys; a string has its positions
  as keys and its characters as values; an array has its indices. \<open>analyzeKeys\<close> is the
  \<open>forEach\<close> over the keys of a document, \<open>analyzeItems\<close> the one over the indices of an
  array, \<open>analyzeValue\<close> the branch of a key that does not start with \<open>$\<close>, \<open>analyzeAnd\<close>
  and \<open>analyzeOr\<close> the two steps after the loop.
\<close>

function (sequential) analyzeQuery :: "qvalue \<Rightarrow> string \<Rightarrow> qvalue list \<Rightarrow> error + analysis"
  and analyzeKeys :: "(string \<times> qvalue) list \<Rightarrow> string \<Rightarrow> analysis \<Rightarrow> error + analysis"
  and analyzeItems :: "qvalue list \<Rightarrow> nat \<Rightarrow> string \<Rightarrow> analysis \<Rightarrow> error + analysis"
  and analyzeAnd :: "qvalue list \<Rightarrow> string \<Rightarrow> analysis \<Rightarrow> error + analysis"
  and analyzeOr :: "qvalue list \<Rightarrow> string \<Rightarrow> qvalue list \<Rightarrow> error + analysis"
  and analyzeValue :: "qvalue \<Rightarrow> string \<Rightarrow> analysis \<Rightarrow> error + analysis"
where
  "analyzeQuery Null rootPath comments = Inl TypeError"
| "analyzeQuery (Bool b) rootPath comments = Inr (start_analysis comments)"
| "analyzeQuery (Num n) rootPath comments = Inr (start_analysis comments)"
| "analyzeQuery Special rootPath comments = Inr (start_analysis comments)"
| "analyzeQuery (Str s) rootPath comments =
     Inr (fold (\<lambda>i subs. push_exact (trimPeriods (rootPath @ nat_string i)) subs) [0..<length s]
            (fst (start_analysis comments)), comments)"
| "analyzeQuery (Arr xs) rootPath comments = analyzeItems xs 0 rootPath (start_analysis comments)"
| "analyzeQuery (Doc kvs) rootPath comments =
     (case analyzeKeys kvs rootPath (start_analysis comments) of
        Inl e \<Rightarrow> Inl e
      | Inr afterKeys \<Rightarrow>
          (case array_operand kvs ''$and'' of
             Inl e \<Rightarrow> Inl e
           | Inr andOperand \<Rightarrow>
               (case (case andOperand of None \<Rightarrow> Inr afterKeys
                      | Some xs \<Rightarrow> analyzeAnd xs rootPath afterKeys) of
                  Inl e \<Rightarrow> Inl e
                | Inr afterAnd \<Rightarrow>
                    (case array_operand kvs ''$or'' of
                       Inl e \<Rightarrow> Inl e
                     | Inr None \<Rightarrow> Inr afterAnd
                     | Inr (Some xs) \<Rightarrow>
                         (case analyzeOr xs rootPath (snd afterAnd) of
                            Inl e \<Rightarrow> Inl e
                          | Inr disjuncts \<Rightarrow>
                              Inr (mergeSubQueries (fst afterAnd) (fst disjuncts), snd disjuncts))))))"
| "analyzeKeys [] rootPath st = Inr st"
| "analyzeKeys ((key, v) # rest) rootPath st =
     (case (if (case key of [] \<Rightarrow> True | c # cs \<Rightarrow> c \<noteq> CHR ''$'')
            then analyzeValue v (rootPath @ key) st
            else if key \<in> set range_operators then Inr (push_range (trimPeriods rootPath) (fst st), snd st)
            else if key = ''$eq'' then Inr (push_exact (trimPeriods rootPath) (fst st), snd st)
            else if key = ''$not'' then
              (case analyzeQuery v rootPath (snd st) of
                 Inl e \<Rightarrow> Inl e
               | Inr sub \<Rightarrow> Inr (mergeSubQueries (fst st) (fst sub), snd sub))
            else if key = ''$elemMatch'' then
              (case analyzeQuery v (rootPath @ ''.'') (snd st) of
                 Inl e \<Rightarrow> Inl e
               | Inr sub \<Rightarrow> Inr (mergeSubQueries (fst st) (fst sub), snd sub))
            else if key \<in> set ignored_operators then Inr st
            else if key = ''$and'' \<or> key = ''$or'' then Inr st
            else if key = ''$comment'' then Inr (fst st, snd st @ [v])
            else Inr st) of
        Inl e \<Rightarrow> Inl e
      | Inr st' \<Rightarrow> analyzeKeys rest rootPath st')"
| "analyzeItems [] i rootPath st = Inr st"
| "analyzeItems (v # rest) i rootPath st =
     (case analyzeValue v (rootPath @ nat_string i) st of
        Inl e \<Rightarrow> Inl e
      | Inr st' \<Rightarrow> analyzeItems rest (Suc i) rootPath st')"
| "analyzeAnd [] rootPath st = Inr st"
| "analyzeAnd (andSubQuery # rest) rootPath st =
     (case analyzeQuery andSubQuery rootPath (snd st) of
        Inl e \<Rightarrow> Inl e
      | Inr sub \<Rightarrow> analyzeAnd rest rootPath (mergeSubQueries (fst st) (fst sub), snd sub))"
| "analyzeOr [] rootPath comments = Inr ([], comments)"
| "analyzeOr (subQuery # rest) rootPath comments =
     (case analyzeQuery subQuery rootPath comments of
        Inl e \<Rightarrow> Inl e
      | Inr sub \<Rightarrow>
          (case analyzeOr rest rootPath (snd sub) of
             Inl e \<Rightarrow> Inl e
           | Inr others \<Rightarrow> Inr (fst sub @ fst others, snd others)))"
| "analyzeValue Special path st = Inr (push_exact (trimPeriods path) (fst st), snd st)"
| "analyzeValue (Doc kvs) path st =
     (case analyzeQuery (Doc kvs) path (snd st) of
        Inl e \<Rightarrow> Inl e
      | Inr sub \<Rightarrow> Inr (mergeSubQueries (fst st) (fst sub), snd sub))"
| "analyzeValue (Arr xs) path st =
     (case analyzeQuery (Arr xs) path (snd st) of
        Inl e \<Rightarrow> Inl e
      | Inr sub \<Rightarrow> Inr (mergeSubQueries (fst st) (fst sub), snd sub))"
| "analyzeValue v path st = Inr (push_exact (trimPeriods path) (fst st), snd st)"
  by pat_completeness auto

termination
  by (relation "measure (\<lambda>x. case x of
        Inl (Inl (v, _, _)) \<Rightarrow> 2 * size v + 1
      | Inl (Inr (Inl (kvs, _, _))) \<Rightarrow> 2 * size_list (size_prod (\<lambda>_. 0) size) kvs + 1
      | Inl (Inr (Inr (xs, _, _, _))) \<Rightarrow> 2 * size_list size xs + 1
      | Inr (Inl (xs, _, _)) \<Rightarrow> 2 * size_list size xs + 1
      | Inr (Inr (Inl (xs, _, _))) \<Rightarrow> 2 * size_list size xs + 1
      | Inr (Inr (Inr (v, _, _))) \<Rightarrow> 2 * size v + 2)")
    (auto dest!: array_operand_size)

text \<open>
  The source and version of a query: of every \<open>$comment\<close> that is a document, the non-empty
  string under \<open>source\<close> and under \<open>version\<close>, the last one found winning.
\<close>

definition comment_field :: "qvalue \<Rightarrow> string \<Rightarrow> string option" where
  "comment_field comment key =
     (case comment of
        Doc kvs \<Rightarrow> (case js_get kvs key of
                      Some (Str s) \<Rightarrow> if s \<noteq> [] then Some s else None
                    | _ \<Rightarrow> None)
      | _ \<Rightarrow> None)"

definition comment_source :: "qvalue list \<Rightarrow> Source" where
  "comment_source allComments =
     fold (\<lambda>comment src.
             \<lparr> source = (case comment_field comment ''source'' of Some s \<Rightarrow> s | None \<Rightarrow> source src),
               version = (case comment_field comment ''version'' of Some s \<Rightarrow> s | None \<Rightarrow> version src) \<rparr>)
       allComments \<lparr> source = ''anonymous'', version = [] \<rparr>"

text \<open>The pure JSON form a QueryProfile is constructed from; three of its fields may be missing.\<close>

record QueryProfileData =
  data_namespace :: string
  data_exact :: "string list"
  data_sort :: "int js_object"
  data_range :: "string list"
  data_lastQueryTime :: "date option"
  data_usageCount :: "int option"
  data_sources :: "Source list option"

text \<open>\<open>new QueryProfile(queryProfile, options)\<close> at the time \<open>now\<close>.\<close>

definition QueryProfile_constructor :: "QueryProfileData \<Rightarrow> date \<Rightarrow> QueryProfile" where
  "QueryProfile_constructor queryProfile now =
     \<lparr> namespace = data_namespace queryProfile,
       exact = data_exact queryProfile,
       sort = data_sort queryProfile,
       range = data_range queryProfile,
       lastQueryTime = (case data_lastQueryTime queryProfile of None \<Rightarrow> now | Some t \<Rightarrow> t),
       usageCount = (case data_usageCount queryProfile of None \<Rightarrow> 0 | Some n \<Rightarrow> n),
       sources = (case data_sources queryProfile of None \<Rightarrow> [] | Some srcs \<Rightarrow> srcs) \<rparr>"

definition createQueryProfilesFromMongoQuery ::
  "string \<Rightarrow> qvalue \<Rightarrow> int js_object \<Rightarrow> date \<Rightarrow> error + QueryProfile list" where
  "createQueryProfilesFromMongoQuery ns query sortObject now =
     (case analyzeQuery query [] [] of
        Inl e \<Rightarrow> Inl e
      | Inr allProfiles \<Rightarrow>
          Inr (map (\<lambda>queryProfile.
                 QueryProfile_constructor
                   \<lparr> data_namespace = ns,
                     data_exact = uniq (sq_exact queryProfile),
                     data_sort = sortObject,
                     data_range = uniq (sq_range queryProfile),
                     data_lastQueryTime = None,
                     data_usageCount = None,
                     data_sources = Some [comment_source (snd allProfiles)] \<rparr> now)
               (fst allProfiles)))"

text \<open>\<open>isEquivalentToQueryProfile\<close> (lines 409 to 453).\<close>

definition isEquivalentToQueryProfile :: "QueryProfile \<Rightarrow> QueryProfile \<Rightarrow> bool" where
  "isEquivalentToQueryProfile self otherQueryProfile =
     (if namespace self \<noteq> namespace otherQueryProfile then False
      else if length (exact self) \<noteq> length (exact otherQueryProfile) then False
      else if length (difference (exact self) (exact otherQueryProfile)) > 0 then False
      else if length (js_keys (sort self)) \<noteq> length (js_keys (sort otherQueryProfile)) then False
      else if length (difference (js_keys (sort self)) (js_keys (sort otherQueryProfile))) > 0 then False
      else if \<not> list_all (\<lambda>sortKey. js_get (sort self) sortKey = js_get (sort otherQueryProfile) sortKey)
                   (js_keys (sort self)) then False
      else if length (range self) \<noteq> length (range otherQueryProfile) then False
      else if length (difference (range self) (range otherQueryProfile)) > 0 then False
      else True)"

definition incrementUsageCount :: "QueryProfile \<Rightarrow> QueryProfile" where
  "incrementUsageCount self = self \<lparr> usageCount := usageCount self + 1 \<rparr>"

text \<open>
  \<open>addSource(source, version)\<close>: the first source of that name takes the new version, or
  the source is appended.
\<close>

fun set_version :: "string \<Rightarrow> string \<Rightarrow> Source list \<Rightarrow> Source list" where
  "set_version src ver [] = []"
| "set_version src ver (s # rest) =
     (if source s = src then s \<lparr> version := ver \<rparr> # rest else s # set_version src ver rest)"

definition addSource :: "string \<Rightarrow> string \<Rightarrow> QueryProfile \<Rightarrow> QueryProfile" where
  "addSource src ver self =
     (if list_ex (\<lambda>s. source s = src) (sources self)
      then self \<lparr> sources := set_version src ver (sources self) \<rparr>
      else self \<lparr> sources := sources self @ [\<lparr> source = src, version = ver \<rparr>] \<rparr>)"

section \<open>The set of query profiles (query\_set.js)\<close>

record QuerySet =
  queryProfiles :: "QueryProfile list"

text \<open>\<open>new QuerySet({}, sampler, options)\<close>\<close>

definition QuerySet_empty :: QuerySet where
  "QuerySet_empty = \<lparr> queryProfiles = [] \<rparr>"

text \<open>The update of the first element a test holds for, in place.\<close>

fun update_first :: "('a \<Rightarrow> bool) \<Rightarrow> ('a \<Rightarrow> 'a) \<Rightarrow> 'a list \<Rightarrow> 'a list" where
  "update_first P f [] = []"
| "update_first P f (x # xs) = (if P x then f x # xs else x # update_first P f xs)"

text \<open>
  \<open>addQueryProfile(queryProfile)\<close> at the time \<open>now\<close> (lines 68 to 91): the new set and the
  profile returned. \<open>merge_into\<close> is the branch that updates the profile found.
\<close>

definition merge_into :: "QueryProfile \<Rightarrow> date \<Rightarrow> QueryProfile \<Rightarrow> QueryProfile" where
  "merge_into queryProfile now existingQueryProfile =
     fold (\<lambda>s existing. addSource (source s) (version s) existing) (sources queryProfile)
       (incrementUsageCount (existingQueryProfile \<lparr> lastQueryTime := now \<rparr>))"

definition addQueryProfile :: "QuerySet \<Rightarrow> QueryProfile \<Rightarrow> date \<Rightarrow> QuerySet \<times> QueryProfile" where
  "addQueryProfile self queryProfile now =
     (case find (\<lambda>otherQueryProfile. isEquivalentToQueryProfile queryProfile otherQueryProfile)
             (queryProfiles self) of
        None \<Rightarrow>
          (self \<lparr> queryProfiles := queryProfiles self @ [incrementUsageCount queryProfile] \<rparr>,
           incrementUsageCount queryProfile)
      | Some existingQueryProfile \<Rightarrow>
          (self \<lparr> queryProfiles :=
               update_first (\<lambda>otherQueryProfile. isEquivalentToQueryProfile queryProfile otherQueryProfile)
                 (merge_into queryProfile now) (queryProfiles self) \<rparr>,
           merge_into queryProfile now existingQueryProfile))"

section \<open>Index sets and the reconciler (index\_set.js)\<close>

record IndexSet =
  indexes :: "MongoIndex list"

text \<open>The changes recommended for one collection.\<close>

record CollectionChanges =
  changes_collectionName :: string
  create_indexes :: "MongoIndex list"
  drop_indexes :: "MongoIndex list"
  keep_indexes :: "MongoIndex list"

definition setIndexExists :: "bool \<Rightarrow> MongoIndex \<Rightarrow> MongoIndex" where
  "setIndexExists v self = self \<lparr> indexExists := v \<rparr>"

text \<open>
  \<open>underscore.groupBy(xs, index => index.canonicalString)[s]\<close>: the indexes of \<open>xs\<close> with the
  canonical string \<open>s\<close>, in the order of \<open>xs\<close>; and the keys of that grouping, sorted.
\<close>

definition canonical_group :: "MongoIndex list \<Rightarrow> string \<Rightarrow> MongoIndex list" where
  "canonical_group xs s = filter (\<lambda>index. canonicalString index = s) xs"

definition canonical_strings :: "MongoIndex list \<Rightarrow> string list" where
  "canonical_strings xs = sortBy (\<lambda>indexString. indexString) (uniq (map canonicalString xs))"

text \<open>
  The body of the \<open>map\<close> over the collections (lines 62 to 90). Marking the indexes to keep
  as existing changes those objects; the \<open>keep\<close> list shows them after the change.
\<close>

definition collection_changes :: "IndexSet \<Rightarrow> IndexSet \<Rightarrow> string \<Rightarrow> CollectionChanges" where
  "collection_changes recommendedIndexSet currentIndexSet collName =
     (let existingIndexes = filter (\<lambda>index. mongoCollectionName index = collName) (indexes currentIndexSet);
          wantedIndexes = filter (\<lambda>index. mongoCollectionName index = collName) (indexes recommendedIndexSet);
          existingIndexCanonicalStrings = canonical_strings existingIndexes;
          wantedIndexCanonicalStrings = canonical_strings wantedIndexes;
          indexesToCreate = difference wantedIndexCanonicalStrings existingIndexCanonicalStrings;
          unwanted = difference existingIndexCanonicalStrings wantedIndexCanonicalStrings;
          indexesToKeep =
            intersection existingIndexCanonicalStrings wantedIndexCanonicalStrings
            @ filter (\<lambda>indexString.
                \<not> name_starts_with_auto (indexName (hd (canonical_group existingIndexes indexString))))
                unwanted;
          indexesToDrop =
            filter (\<lambda>indexString.
                name_starts_with_auto (indexName (hd (canonical_group existingIndexes indexString))))
              unwanted;
          wantedOrExisting =
            (\<lambda>indexString. case canonical_group wantedIndexes indexString of
                               [] \<Rightarrow> hd (canonical_group existingIndexes indexString)
                             | wanted # others \<Rightarrow> wanted)
      in \<lparr> changes_collectionName = collName,
           create_indexes = map (\<lambda>indexString. hd (canonical_group wantedIndexes indexString)) indexesToCreate,
           drop_indexes = map (\<lambda>indexString. hd (canonical_group existingIndexes indexString)) indexesToDrop,
           keep_indexes = map (\<lambda>indexString. setIndexExists True (wantedOrExisting indexString)) indexesToKeep \<rparr>)"

definition getRecommendedIndexChanges :: "IndexSet \<Rightarrow> IndexSet \<Rightarrow> CollectionChanges list" where
  "getRecommendedIndexChanges recommendedIndexSet currentIndexSet =
     map (collection_changes recommendedIndexSet currentIndexSet)
       (uniq (map mongoCollectionName (indexes recommendedIndexSet)
              @ map mongoCollectionName (indexes currentIndexSet)))"

text \<open>
  Two indexes the database holds on the same key of one collection (with different
  collations, say), the first created by the engine, the second by a user.
\<close>

definition engine_index :: MongoIndex where
  "engine_index = MongoIndex_new [(''email'', Dir 1)] ''users'' (Some ''auto_abc'')"

definition user_index :: MongoIndex where
  "user_index = MongoIndex_new [(''email'', Dir 1)] ''users'' (Some ''user_email_unique'')"

section \<open>Index objects shared between profiles\<close>

text \<open>
  Profiles hold references to MongoIndex objects, and several profiles may hold the same
  object. The store maps a reference to the object it stands for; a profile together
  with the references in its \<open>reducedIndexes\<close> is a \<open>ProfileState\<close>.
\<close>

type_synonym index_store = "nat \<Rightarrow> MongoIndex"

record ProfileState =
  profile :: QueryProfile
  reducedIndexes :: "nat list"

section \<open>Removing fields that do not narrow the result (query\_set.js, lines 297 to 374)\<close>

text \<open>
  \<open>underscore.max(xs, f)\<close>: the first element whose \<open>f\<close>-value no other element exceeds;
  \<open>None\<close> stands for the \<open>-Infinity\<close> an empty list gives. Reductions are ratios of sample
  counts; they are only ever compared, and the rationals stand for them.
\<close>

fun max_from :: "('a \<Rightarrow> rat) \<Rightarrow> 'a \<Rightarrow> 'a list \<Rightarrow> 'a" where
  "max_from f best [] = best"
| "max_from f best (x # xs) = (if f x > f best then max_from f x xs else max_from f best xs)"

definition underscore_max :: "('a \<Rightarrow> rat) \<Rightarrow> 'a list \<Rightarrow> 'a option" where
  "underscore_max f xs = (case xs of [] \<Rightarrow> None | x # rest \<Rightarrow> Some (max_from f x rest))"

definition sortFields :: "MongoIndex \<Rightarrow> string list" where
  "sortFields index =
     uniq (concat (map (\<lambda>queryProfile. js_keys (sort queryProfile)) (knownQueryProfiles index)))"

definition fieldsToExamine :: "MongoIndex \<Rightarrow> string list" where
  "fieldsToExamine index = difference (js_keys (index_fields index)) (sortFields index)"

text \<open>\<open>index.getIndexStatistics()[field].reduction\<close>, if there are statistics for the field.\<close>

definition field_reduction :: "MongoIndex \<Rightarrow> string \<Rightarrow> rat option" where
  "field_reduction index field =
     (case indexStatistics index of
        None \<Rightarrow> None
      | Some stats \<Rightarrow> map_option reduction (js_get stats field))"

text \<open>The fields counted in \<open>possibleFieldsToEliminate\<close>.\<close>

definition fieldsExceeding :: "Options \<Rightarrow> MongoIndex \<Rightarrow> string list" where
  "fieldsExceeding opts index =
     filter (\<lambda>field. the (field_reduction index field) > minimumReduction opts) (fieldsToExamine index)"

text \<open>
  The body of \<open>indexSet.indexes.forEach\<close> for one index: the index afterwards, and whether
  \<open>cont\<close> was set. Reading \<open>reduction\<close> of missing statistics raises a TypeError in the first
  loop. \<open>reductionValue\<close> is the statistics object of the field \<open>underscore.max\<close> returns, and
  the last loop compares statistics objects with \<open>===\<close>; every field of an index has a
  statistics object of its own, so the comparison holds for that field alone.
\<close>

definition simplifyIndex :: "Options \<Rightarrow> MongoIndex \<Rightarrow> error + MongoIndex \<times> bool" where
  "simplifyIndex opts index =
     (if length (js_keys (index_fields index)) = 1 then Inr (index, False)
      else if list_ex (\<lambda>field. field_reduction index field = None) (fieldsToExamine index)
        then Inl TypeError
      else if length (fieldsExceeding opts index) = 0 then Inr (index, False)
      else
        (case underscore_max (\<lambda>field. the (field_reduction index field)) (fieldsToExamine index) of
           None \<Rightarrow> Inr (index, False)
         | Some greatest \<Rightarrow>
             (case fold (\<lambda>field chosen. if field = greatest then Some field else chosen)
                     (fieldsToExamine index) None of
                None \<Rightarrow> Inr (index, False)
              | Some fieldToEliminate \<Rightarrow>
                  if fieldToEliminate \<noteq> [] then Inr (removeField fieldToEliminate index, True)
                  else Inr (index, True))))"

text \<open>
  One pass over the indexes of a collection, \<open>underscore.uniq\<close> of the indexes its profiles
  hold, each with its statistics already set: the store afterwards and \<open>cont\<close>.
\<close>

fun simplify_all :: "Options \<Rightarrow> index_store \<Rightarrow> nat list \<Rightarrow> error + index_store \<times> bool" where
  "simplify_all opts s [] = Inr (s, False)"
| "simplify_all opts s (r # rs) =
     (case simplifyIndex opts (s r) of
        Inl e \<Rightarrow> Inl e
      | Inr here \<Rightarrow>
          (case simplify_all opts (s(r := fst here)) rs of
             Inl e \<Rightarrow> Inl e
           | Inr later \<Rightarrow> Inr (fst later, snd here \<or> snd later)))"

definition simplification_pass ::
  "Options \<Rightarrow> index_store \<Rightarrow> ProfileState list \<Rightarrow> error + index_store \<times> bool" where
  "simplification_pass opts s collectionQueryProfiles =
     simplify_all opts s (uniq (concat (map reducedIndexes collectionQueryProfiles)))"

section \<open>Folding indexes into the indexes they are a prefix of (query\_set.js, lines 118 to 225)\<close>

text \<open>
  The first loop of \<open>reduceIndexes\<close>: within the list of one profile, the first pair of
  positions \<open>n \<noteq> k\<close> with the same index is looked for, \<open>n\<close> in the outer and \<open>k\<close> in the inner
  loop, and the index at \<open>k\<close> is spliced out, until there is no such pair.
\<close>

definition duplicate_position :: "index_store \<Rightarrow> nat list \<Rightarrow> nat option" where
  "duplicate_position s indexList =
     map_option snd
       (find (\<lambda>nk. fst nk \<noteq> snd nk \<and> isSameAs (s (indexList ! fst nk)) (s (indexList ! snd nk)))
          (List.product [0..<length indexList] [0..<length indexList]))"

lemma find_Some_member: "find P xs = Some x \<Longrightarrow> x \<in> set xs"
  by (induction xs) (auto split: if_splits)

lemma duplicate_position_less: "duplicate_position s indexList = Some k \<Longrightarrow> k < length indexList"
proof -
  assume "duplicate_position s indexList = Some k"
  then obtain nk where "nk \<in> set (List.product [0..<length indexList] [0..<length indexList])"
    and "k = snd nk"
    unfolding duplicate_position_def using find_Some_member by fastforce
  then show ?thesis by auto
qed

function remove_duplicates :: "index_store \<Rightarrow> nat list \<Rightarrow> nat list" where
  "remove_duplicates s indexList =
     (case duplicate_position s indexList of
        None \<Rightarrow> indexList
      | Some k \<Rightarrow> remove_duplicates s (take k indexList @ drop (Suc k) indexList))"
  by pat_completeness auto

termination
  by (relation "measure (\<lambda>(s, indexList). length indexList)")
    (auto dest!: duplicate_position_less)

text \<open>
  The second loop, for the profile at position \<open>lhsQueryN\<close>. \<open>other_indexes\<close> lists the
  indexes of the other profiles of the same collection in the order the two inner loops
  visit them, each with the position of its profile.
\<close>

definition other_indexes :: "ProfileState list \<Rightarrow> nat \<Rightarrow> (nat \<times> nat) list" where
  "other_indexes profiles lhsQueryN =
     concat (map (\<lambda>rhsQueryN.
         if rhsQueryN \<noteq> lhsQueryN
            \<and> collectionName (profile (profiles ! lhsQueryN))
                = collectionName (profile (profiles ! rhsQueryN))
         then map (\<lambda>rhsIndex. (rhsQueryN, rhsIndex)) (reducedIndexes (profiles ! rhsQueryN))
         else [])
       [0..<length profiles])"

definition lhsSameIndexes :: "index_store \<Rightarrow> ProfileState list \<Rightarrow> nat \<Rightarrow> nat \<Rightarrow> nat list" where
  "lhsSameIndexes s profiles lhsQueryN lhsIndex =
     map snd (filter (\<lambda>rhs. isSameAs (s lhsIndex) (s (snd rhs)) \<and> fst rhs > lhsQueryN)
                (other_indexes profiles lhsQueryN))"

definition lhsPrefixedIndexes :: "index_store \<Rightarrow> ProfileState list \<Rightarrow> nat \<Rightarrow> nat \<Rightarrow> nat list" where
  "lhsPrefixedIndexes s profiles lhsQueryN lhsIndex =
     map snd (filter (\<lambda>rhs. \<not> (isSameAs (s lhsIndex) (s (snd rhs)) \<and> fst rhs > lhsQueryN)
                           \<and> isIndexPrefixOf (s lhsIndex) (s (snd rhs)))
                (other_indexes profiles lhsQueryN))"

definition replacement :: "index_store \<Rightarrow> ProfileState list \<Rightarrow> nat \<Rightarrow> nat \<Rightarrow> nat list" where
  "replacement s profiles lhsQueryN lhsIndex =
     (if length (lhsPrefixedIndexes s profiles lhsQueryN lhsIndex) > 0
        then lhsPrefixedIndexes s profiles lhsQueryN lhsIndex
      else if length (lhsSameIndexes s profiles lhsQueryN lhsIndex) > 0
        then lhsSameIndexes s profiles lhsQueryN lhsIndex
      else [lhsIndex])"

text \<open>The new list of the profile, and whether \<open>changed\<close> was set while it was made.\<close>

definition newLHSIndexes :: "index_store \<Rightarrow> ProfileState list \<Rightarrow> nat \<Rightarrow> nat list" where
  "newLHSIndexes s profiles lhsQueryN =
     uniq_by (\<lambda>index. canonicalString (s index))
       (concat (map (replacement s profiles lhsQueryN)
                  (reducedIndexes (profiles ! lhsQueryN))))"

definition found_prefix :: "index_store \<Rightarrow> ProfileState list \<Rightarrow> nat \<Rightarrow> bool" where
  "found_prefix s profiles lhsQueryN =
     list_ex (\<lambda>lhsIndex. length (lhsPrefixedIndexes s profiles lhsQueryN lhsIndex) > 0)
       (reducedIndexes (profiles ! lhsQueryN))"

text \<open>
  One round of \<open>queryProfiles.forEach\<close>: the profiles are taken in turn, and each sees the
  lists the profiles before it were given in this round.
\<close>

definition reduce_step :: "index_store \<Rightarrow> nat \<Rightarrow> ProfileState list \<times> bool \<Rightarrow> ProfileState list \<times> bool" where
  "reduce_step s lhsQueryN st =
     ((fst st)[lhsQueryN := (fst st ! lhsQueryN)
                 \<lparr> reducedIndexes := newLHSIndexes s (fst st) lhsQueryN \<rparr>],
      snd st \<or> found_prefix s (fst st) lhsQueryN)"

definition reduce_pass :: "index_store \<Rightarrow> ProfileState list \<Rightarrow> ProfileState list \<times> bool" where
  "reduce_pass s profiles =
     fold (reduce_step s) [0..<length profiles] (profiles, False)"

text \<open>\<open>while (changed)\<close>: rounds are made until one sets \<open>changed\<close> for no index.\<close>

partial_function (option) reduce_loop :: "index_store \<Rightarrow> ProfileState list \<Rightarrow> ProfileState list option" where
  "reduce_loop s profiles =
     (if snd (reduce_pass s profiles) then reduce_loop s (fst (reduce_pass s profiles))
      else Some (fst (reduce_pass s profiles)))"

declare reduce_loop.simps [code]

text \<open>
  The last two loops: every index forgets the profiles it knew, and every profile is
  then added to each index in its list. The store holds the index objects that the profiles
  refer to, which are the ones the code resets.
\<close>

definition known_profiles :: "ProfileState list \<Rightarrow> nat \<Rightarrow> QueryProfile list" where
  "known_profiles profiles index =
     concat (map (\<lambda>queryProfile.
         map (\<lambda>i. profile queryProfile) (filter (\<lambda>i. i = index) (reducedIndexes queryProfile)))
       profiles)"

text \<open>
  \<open>reduceIndexes(queryProfiles)\<close>: the store and the profiles afterwards, if the loop comes
  to an end.
\<close>

definition reduceIndexes ::
  "index_store \<Rightarrow> ProfileState list \<Rightarrow> (index_store \<times> ProfileState list) option" where
  "reduceIndexes s profiles =
     (case reduce_loop s
             (map (\<lambda>queryProfile. queryProfile
                     \<lparr> reducedIndexes := remove_duplicates s (reducedIndexes queryProfile) \<rparr>)
                profiles) of
        None \<Rightarrow> None
      | Some reduced \<Rightarrow>
          Some (\<lambda>index. (s index) \<lparr> knownQueryProfiles := known_profiles reduced index \<rparr>, reduced))"

section \<open>Inputs of the scenarios\<close>

definition default_options :: Options where
  "default_options = \<lparr> minimumCardinality = 3, minimumReduction = 7 / 10, minimumQueryCount = 1 \<rparr>"

text \<open>Statistics of a field that is indexed normally.\<close>

definition normal_field :: "int \<Rightarrow> string list \<Rightarrow> FieldStatistics" where
  "normal_field c ps = \<lparr> mode = Normal, cardinality = c, longest = 1, arrayPrefixes = ps \<rparr>"

text \<open>
  The query of scenario S1,
  \<open>{name: "brad", $or: [{email: {$exists: true}}, {status: "registered", email: "x"}]}\<close>.
\<close>

definition S1_query :: qvalue where
  "S1_query =
     Doc [(''name'', Str ''brad''),
          (''$or'', Arr [Doc [(''email'', Doc [(''$exists'', Bool True)])],
                         Doc [(''status'', Str ''registered''), (''email'', Str ''x'')]])]"

text \<open>
  The collection of scenario S6: \<open>names\<close> and \<open>statuses\<close> are arrays of documents,
  \<open>password\<close> and \<open>birthday\<close> are plain fields.
\<close>

definition S6_statistics :: "FieldStatistics js_object" where
  "S6_statistics =
     [(''names.first'', normal_field 10 [''names'']),
      (''statuses.date'', normal_field 20 [''statuses'']),
      (''password'', normal_field 30 []),
      (''birthday'', normal_field 5 [])]"

text \<open>
  The query \<open>{"names.first": .., "statuses.date": .., password: ..}\<close> of S6, sorted by
  \<open>{birthday: -1}\<close>.
\<close>

definition S6_sorted_profile :: QueryProfile where
  "S6_sorted_profile =
     \<lparr> namespace = ''db.users'',
       exact = [''names.first'', ''statuses.date'', ''password''],
       sort = [(''birthday'', - 1)],
       range = [],
       lastQueryTime = 0, usageCount = 1,
       sources = [\<lparr> source = ''anonymous'', version = [] \<rparr>] \<rparr>"

text \<open>
  One query seen twice, the second time from a later version of the same source file.
\<close>

definition first_observation :: QueryProfile where
  "first_observation =
     \<lparr> namespace = ''db.users'', exact = [''name''], sort = [(''birthday'', - 1)],
       range = [''email''], lastQueryTime = 1, usageCount = 0,
       sources = [\<lparr> source = ''api.js:12'', version = ''1.0.0'' \<rparr>] \<rparr>"

definition second_observation :: QueryProfile where
  "second_observation =
     \<lparr> namespace = ''db.users'', exact = [''name''], sort = [(''birthday'', - 1)],
       range = [''email''], lastQueryTime = 2, usageCount = 0,
       sources = [\<lparr> source = ''api.js:12'', version = ''1.0.1'' \<rparr>] \<rparr>"

text \<open>
  An index on \<open>name\<close> and \<open>birthday\<close> with the reductions measured for its two fields, serving
  one query that does not sort.
\<close>

definition name_birthday_index :: "rat \<Rightarrow> rat \<Rightarrow> MongoIndex" where
  "name_birthday_index r1 r2 =
     (MongoIndex_new [(''name'', Dir 1), (''birthday'', Dir 1)] ''users'' None)
       \<lparr> indexStatistics :=
           Some [(''name'', \<lparr> reduction = r1, currentAverageDistinct = 1, lastAverageDistinct = 1 \<rparr>),
                 (''birthday'', \<lparr> reduction = r2, currentAverageDistinct = 1, lastAverageDistinct = 1 \<rparr>)],
         knownQueryProfiles :=
           [\<lparr> namespace = ''db.users'', exact = [''name'', ''birthday''], sort = [], range = [],
              lastQueryTime = 0, usageCount = 1, sources = [] \<rparr>] \<rparr>"

text \<open>
  A profile in the manner of scenario S2, with a sort and two range fields added: \<open>a\<close>
  has too few values to be indexed.
\<close>

definition S2_statistics :: "FieldStatistics js_object" where
  "S2_statistics =
     [(''a'', normal_field 2 []), (''b'', normal_field 100 []), (''c'', normal_field 10 []),
      (''created'', normal_field 500 []), (''x'', normal_field 40 []), (''y'', normal_field 8 [])]"

definition S2_profile :: QueryProfile where
  "S2_profile =
     \<lparr> namespace = ''db.items'', exact = [''a'', ''c'', ''b''], sort = [(''created'', - 1)],
       range = [''x'', ''y''], lastQueryTime = 0, usageCount = 1, sources = [] \<rparr>"

text \<open>
  The query \<open>{age: {$gt: 21}}\<close> sorted by \<open>{name: 1, age: -1}\<close>: \<open>age\<close> is a range field and the
  second sort key.
\<close>

definition adults_statistics :: "FieldStatistics js_object" where
  "adults_statistics = [(''name'', normal_field 100 []), (''age'', normal_field 50 [])]"

definition adults_profile :: QueryProfile where
  "adults_profile =
     \<lparr> namespace = ''db.users'', exact = [], sort = [(''name'', 1), (''age'', - 1)],
       range = [''age''], lastQueryTime = 0, usageCount = 1, sources = [] \<rparr>"

text \<open>Scenario S7: a query on the one field \<open>blob\<close>, whose values are too long to index.\<close>

definition S7_statistics :: "FieldStatistics js_object" where
  "S7_statistics = [(''blob'', \<lparr> mode = Hash, cardinality = 900, longest = 4096, arrayPrefixes = [] \<rparr>)]"

definition S7_profile :: QueryProfile where
  "S7_profile =
     \<lparr> namespace = ''db.docs'', exact = [''blob''], sort = [], range = [],
       lastQueryTime = 0, usageCount = 1, sources = [] \<rparr>"

text \<open>Scenario S6 as it stands, without a sort; and a query over three arrays.\<close>

definition S6_profile :: QueryProfile where
  "S6_profile = S6_sorted_profile \<lparr> sort := [] \<rparr>"

definition three_arrays_statistics :: "FieldStatistics js_object" where
  "three_arrays_statistics =
     [(''names.first'', normal_field 10 [''names'']),
      (''statuses.date'', normal_field 20 [''statuses'']),
      (''tags.label'', normal_field 30 [''tags''])]"

definition three_arrays_profile :: QueryProfile where
  "three_arrays_profile =
     \<lparr> namespace = ''db.users'', exact = [''names.first'', ''statuses.date'', ''tags.label''],
       sort = [], range = [], lastQueryTime = 0, usageCount = 1, sources = [] \<rparr>"

text \<open>
  Index objects for the scenarios of \<open>reduceIndexes\<close>: reference \<open>n\<close> stands for an index on
  the first fields of \<open>x, y, z\<close>, or, in the second store, for one of three separate
  objects that are all the index \<open>{a: 1}\<close>.
\<close>

definition xyz_store :: index_store where
  "xyz_store r =
     (if r = 0 then MongoIndex_new [(''x'', Dir 1)] ''c'' None
      else if r = 1 then MongoIndex_new [(''x'', Dir 1), (''y'', Dir 1)] ''c'' None
      else MongoIndex_new [(''x'', Dir 1), (''y'', Dir 1), (''z'', Dir 1)] ''c'' None)"

definition same_index_store :: index_store where
  "same_index_store r = MongoIndex_new [(''a'', Dir 1)] ''c'' None"

definition profile_on_c :: "string list \<Rightarrow> string list \<Rightarrow> QueryProfile" where
  "profile_on_c es rs =
     \<lparr> namespace = ''db.c'', exact = es, sort = [], range = rs,
       lastQueryTime = 0, usageCount = 1, sources = [] \<rparr>"

definition S4_profiles :: "ProfileState list" where
  "S4_profiles =
     [\<lparr> profile = profile_on_c [''x''] [], reducedIndexes = [0] \<rparr>,
      \<lparr> profile = profile_on_c [''x'', ''y''] [], reducedIndexes = [1] \<rparr>,
      \<lparr> profile = profile_on_c [''x'', ''y'', ''z''] [], reducedIndexes = [2] \<rparr>]"

definition two_candidates_profile :: "ProfileState list" where
  "two_candidates_profile =
     [\<lparr> profile = profile_on_c [''x''] [''y''], reducedIndexes = [0, 1] \<rparr>]"

definition same_index_profiles :: "ProfileState list" where
  "same_index_profiles =
     [\<lparr> profile = profile_on_c [''a''] [], reducedIndexes = [0] \<rparr>,
      \<lparr> profile = profile_on_c [''a''] [''b''], reducedIndexes = [1] \<rparr>,
      \<lparr> profile = profile_on_c [''a''] [''c''], reducedIndexes = [2] \<rparr>]"

section \<open>Basic facts about the helpers\<close>

lemma uniq_seen_subset: "set (uniq_seen f seen xs) \<subseteq> set xs"
  by (induction xs arbitrary: seen) auto

lemma uniq_seen_image: "f ` set (uniq_seen f seen xs) = f ` set xs - set seen"
  by (induction xs arbitrary: seen) auto

lemma uniq_seen_fresh: "x \<in> set (uniq_seen f seen xs) \<Longrightarrow> f x \<notin> set seen"
  using uniq_seen_image [of f seen xs] by blast

lemma uniq_seen_distinct: "distinct (map f (uniq_seen f seen xs))"
proof (induction xs arbitrary: seen)
  case Nil
  then show ?case by simp
next
  case (Cons x xs)
  show ?case
  proof (cases "f x \<in> set seen")
    case True
    then show ?thesis using Cons.IH by simp
  next
    case False
    have "f x \<notin> f ` set (uniq_seen f (seen @ [f x]) xs)"
      by (simp add: uniq_seen_image)
    then show ?thesis using False Cons.IH by simp
  qed
qed

lemma uniq_seen_same:
  "distinct (map f xs) \<Longrightarrow> f ` set xs \<inter> set seen = {} \<Longrightarrow> uniq_seen f seen xs = xs"
  by (induction xs arbitrary: seen) auto

lemma set_uniq [simp]: "set (uniq xs) = set xs"
  using uniq_seen_image [of "\<lambda>x. x" "[]" xs] by (simp add: uniq_def uniq_by_def)

lemma distinct_uniq [simp]: "distinct (uniq xs)"
  using uniq_seen_distinct [of "\<lambda>x. x" "[]" xs] by (simp add: uniq_def uniq_by_def)

lemma uniq_distinct: "distinct xs \<Longrightarrow> uniq xs = xs"
  using uniq_seen_same [of "\<lambda>x. x" xs "[]"] by (simp add: uniq_def uniq_by_def)

lemma uniq_by_subset: "set (uniq_by f xs) \<subseteq> set xs"
  by (simp add: uniq_by_def uniq_seen_subset)

lemma uniq_by_image: "f ` set (uniq_by f xs) = f ` set xs"
  by (simp add: uniq_by_def uniq_seen_image)

lemma uniq_by_distinct: "distinct (map f (uniq_by f xs))"
  by (simp add: uniq_by_def uniq_seen_distinct)

lemma difference_empty: "set xs \<subseteq> set ys \<Longrightarrow> difference xs ys = []"
  by (auto simp: difference_def filter_empty_conv)

lemma set_difference [simp]: "set (difference xs ys) = set xs - set ys"
  by (auto simp: difference_def)

lemma js_get_None: "js_get kvs k = None \<longleftrightarrow> k \<notin> set (js_keys kvs)"
  by (induction kvs) (auto simp: js_keys_def split: if_splits)

lemma js_get_map_of: "js_get kvs k = map_of kvs k"
  by (induction kvs) auto

lemma js_keys_js_set:
  "js_keys (js_set k v obj) = (if k \<in> set (js_keys obj) then js_keys obj else js_keys obj @ [k])"
  by (induction obj) (force simp: js_keys_def)+

lemma same_length_of_same_set: "distinct xs \<Longrightarrow> distinct ys \<Longrightarrow> set xs = set ys \<Longrightarrow> length xs = length ys"
  by (metis distinct_card)

lemma equivalent_of_same_fields:
  assumes "namespace p = namespace q"
    and "set (exact p) = set (exact q)" and "distinct (exact p)" and "distinct (exact q)"
    and "js_get (sort p) = js_get (sort q)"
    and "distinct (js_keys (sort p))" and "distinct (js_keys (sort q))"
    and "set (range p) = set (range q)" and "distinct (range p)" and "distinct (range q)"
  shows "isEquivalentToQueryProfile p q"
proof -
  have keys: "set (js_keys (sort p)) = set (js_keys (sort q))"
  proof -
    have "k \<in> set (js_keys (sort p)) \<longleftrightarrow> k \<in> set (js_keys (sort q))" for k
    proof -
      have "k \<in> set (js_keys (sort p)) \<longleftrightarrow> js_get (sort p) k \<noteq> None"
        by (simp add: js_get_None)
      also have "\<dots> \<longleftrightarrow> js_get (sort q) k \<noteq> None"
        by (simp only: assms(5))
      also have "\<dots> \<longleftrightarrow> k \<in> set (js_keys (sort q))"
        by (simp add: js_get_None)
      finally show ?thesis .
    qed
    then show ?thesis by blast
  qed
  have "length (exact p) = length (exact q)"
    using assms(2,3,4) by (rule_tac same_length_of_same_set)
  moreover have "length (range p) = length (range q)"
    using assms(8,9,10) by (rule_tac same_length_of_same_set)
  moreover have "length (js_keys (sort p)) = length (js_keys (sort q))"
    using assms(6,7) keys by (rule_tac same_length_of_same_set)
  moreover have "difference (exact p) (exact q) = []" "difference (range p) (range q) = []"
    "difference (js_keys (sort p)) (js_keys (sort q)) = []"
    using assms keys by (simp_all add: difference_empty)
  ultimately show ?thesis
    using assms(1,5) by (simp add: isEquivalentToQueryProfile_def list_all_iff)
qed

text \<open>The sources after \<open>addSource\<close>, as a function of the list.\<close>

lemma set_version_set:
  "distinct (map source srcs) \<Longrightarrow> n \<in> source ` set srcs \<Longrightarrow>
   set (set_version n v srcs) = {s \<in> set srcs. source s \<noteq> n} \<union> {\<lparr> source = n, version = v \<rparr>}"
proof (induction srcs)
  case Nil
  then show ?case by simp
next
  case (Cons s rest)
  show ?case
  proof (cases "source s = n")
    case True
    then have "s \<lparr> version := v \<rparr> = \<lparr> source = n, version = v \<rparr>" by (cases s) simp
    moreover have "source s \<notin> source ` set rest"
      using Cons.prems(1) by simp
    then have "\<forall>x\<in>set rest. source x \<noteq> n"
      using True by blast
    then have "{x \<in> set (s # rest). source x \<noteq> n} = set rest"
      using True by auto
    moreover have "set (set_version n v (s # rest)) = insert (s \<lparr> version := v \<rparr>) (set rest)"
      using True by simp
    ultimately show ?thesis by simp
  next
    case False
    then have "n \<in> source ` set rest" using Cons.prems(2) by auto
    then have "set (set_version n v rest) = {s \<in> set rest. source s \<noteq> n} \<union> {\<lparr> source = n, version = v \<rparr>}"
      using Cons.IH Cons.prems(1) by simp
    then show ?thesis using False by auto
  qed
qed

lemma set_version_names: "map source (set_version n v srcs) = map source srcs"
  by (induction srcs) auto

lemma addSource_sources:
  assumes "distinct (map source (sources p))"
  shows "set (sources (addSource n v p)) = {s \<in> set (sources p). source s \<noteq> n} \<union> {\<lparr> source = n, version = v \<rparr>}"
    and "distinct (map source (sources (addSource n v p)))"
proof -
  show "set (sources (addSource n v p)) = {s \<in> set (sources p). source s \<noteq> n} \<union> {\<lparr> source = n, version = v \<rparr>}"
  proof (cases "list_ex (\<lambda>s. source s = n) (sources p)")
    case True
    then have "n \<in> source ` set (sources p)" by (auto simp: list_ex_iff)
    then show ?thesis using True assms by (simp add: addSource_def set_version_set)
  next
    case False
    then have "{s \<in> set (sources p). source s \<noteq> n} = set (sources p)" by (auto simp: list_ex_iff)
    then show ?thesis using False by (simp add: addSource_def)
  qed
  show "distinct (map source (sources (addSource n v p)))"
    using assms by (auto simp: addSource_def set_version_names list_ex_iff)
qed

lemma addSource_keeps:
  "usageCount (addSource n v p) = usageCount p" "exact (addSource n v p) = exact p"
  "range (addSource n v p) = range p" "sort (addSource n v p) = sort p"
  "namespace (addSource n v p) = namespace p" "lastQueryTime (addSource n v p) = lastQueryTime p"
  by (simp_all add: addSource_def)

lemma fold_addSource_keeps:
  "usageCount (fold (\<lambda>s e. addSource (source s) (version s) e) srcs p) = usageCount p"
  "exact (fold (\<lambda>s e. addSource (source s) (version s) e) srcs p) = exact p"
  "range (fold (\<lambda>s e. addSource (source s) (version s) e) srcs p) = range p"
  "sort (fold (\<lambda>s e. addSource (source s) (version s) e) srcs p) = sort p"
  "namespace (fold (\<lambda>s e. addSource (source s) (version s) e) srcs p) = namespace p"
  "lastQueryTime (fold (\<lambda>s e. addSource (source s) (version s) e) srcs p) = lastQueryTime p"
  by (induction srcs arbitrary: p) (simp_all add: addSource_keeps)

lemma fold_addSource_sources:
  "distinct (map source (sources p)) \<Longrightarrow> distinct (map source srcs) \<Longrightarrow>
   set (sources (fold (\<lambda>s e. addSource (source s) (version s) e) srcs p))
   = set srcs \<union> {s \<in> set (sources p). source s \<notin> source ` set srcs}"
proof (induction srcs arbitrary: p)
  case Nil
  then show ?case by simp
next
  case (Cons x xs)
  have x: "\<lparr> source = source x, version = version x \<rparr> = x" by (cases x) simp
  have "set (sources (fold (\<lambda>s e. addSource (source s) (version s) e) xs (addSource (source x) (version x) p)))
        = set xs \<union> {s \<in> set (sources (addSource (source x) (version x) p)). source s \<notin> source ` set xs}"
    using Cons.IH [of "addSource (source x) (version x) p"] Cons.prems
    by (simp add: addSource_sources(2))
  also have "\<dots> = set xs \<union> {s \<in> {s \<in> set (sources p). source s \<noteq> source x} \<union> {x}. source s \<notin> source ` set xs}"
    using Cons.prems(1) by (simp only: addSource_sources(1) x)
  also have "\<dots> = set (x # xs) \<union> {s \<in> set (sources p). source s \<notin> source ` set (x # xs)}"
    using Cons.prems(2) by auto
  finally show ?case by simp
qed

lemma set_sortBy [simp]: "set (sortBy f xs) = set xs"
  by (simp add: sortBy_def)

lemma set_canonical_strings [simp]: "set (canonical_strings xs) = canonicalString ` set xs"
  by (simp add: canonical_strings_def)

lemma hd_filter_of_find: "find P xs = Some e \<Longrightarrow> hd (filter P xs) = e"
  by (induction xs) (auto split: if_splits)

lemma hd_canonical_group_in:
  "s \<in> canonicalString ` set xs \<Longrightarrow>
   hd (canonical_group xs s) \<in> set xs \<and> canonicalString (hd (canonical_group xs s)) = s"
proof -
  assume "s \<in> canonicalString ` set xs"
  then have "canonical_group xs s \<noteq> []"
    by (auto simp: canonical_group_def filter_empty_conv)
  then have "hd (canonical_group xs s) \<in> set (canonical_group xs s)"
    by simp
  then show ?thesis
    by (simp add: canonical_group_def)
qed

lemma max_from_greatest:
  "max_from f best xs \<in> set (best # xs) \<and> (\<forall>x \<in> set (best # xs). f x \<le> f (max_from f best xs))"
proof (induction xs arbitrary: best)
  case Nil
  show ?case by simp
next
  case (Cons y ys)
  show ?case
  proof (cases "f y > f best")
    case True
    then show ?thesis using Cons.IH [of y] by fastforce
  next
    case False
    then show ?thesis using Cons.IH [of best] by fastforce
  qed
qed

lemma underscore_max_greatest:
  "xs \<noteq> [] \<Longrightarrow> \<exists>m. underscore_max f xs = Some m \<and> m \<in> set xs \<and> (\<forall>x \<in> set xs. f x \<le> f m)"
  using max_from_greatest [of f "hd xs" "tl xs"]
  by (cases xs) (auto simp: underscore_max_def)

lemma fold_choose_last:
  "fold (\<lambda>field chosen. if field = g then Some field else chosen) xs acc
   = (if g \<in> set xs then Some g else acc)"
  by (induction xs arbitrary: acc) auto

lemma js_keys_js_delete: "js_keys (js_delete k obj) = filter (\<lambda>x. x \<noteq> k) (js_keys obj)"
  by (induction obj) (auto simp: js_keys_def js_delete_def)

lemma filter_neq_remove1: "distinct xs \<Longrightarrow> filter (\<lambda>x. x \<noteq> k) xs = remove1 k xs"
  by (induction xs) (auto simp: remove1_idem)

text \<open>What \<open>simplifyIndex\<close> does to an index that has statistics for the fields it examines.\<close>

lemma simplifyIndex_unchanged:
  "simplifyIndex opts index = Inr (index', c) \<Longrightarrow> fieldsExceeding opts index = [] \<Longrightarrow>
   index' = index \<and> \<not> c"
  by (auto simp: simplifyIndex_def split: if_splits)

lemma simplifyIndex_removes:
  assumes "simplifyIndex opts index = Inr (index', c)"
    and "fieldsExceeding opts index \<noteq> []"
    and "length (js_keys (index_fields index)) \<noteq> 1"
    and "[] \<notin> set (js_keys (index_fields index))"
  shows "\<exists>f \<in> set (fieldsExceeding opts index).
           (\<forall>g \<in> set (fieldsToExamine index).
              the (field_reduction index g) \<le> the (field_reduction index f))
           \<and> index' = removeField f index \<and> c"
proof -
  let ?red = "\<lambda>field. the (field_reduction index field)"
  have nonempty: "fieldsToExamine index \<noteq> []"
    using assms(2) by (auto simp: fieldsExceeding_def)
  then obtain m where m: "underscore_max ?red (fieldsToExamine index) = Some m"
    "m \<in> set (fieldsToExamine index)" "\<forall>x \<in> set (fieldsToExamine index). ?red x \<le> ?red m"
    using underscore_max_greatest [of "fieldsToExamine index" ?red] by blast
  obtain g where "g \<in> set (fieldsExceeding opts index)"
    using assms(2) last_in_set by blast
  then have g: "g \<in> set (fieldsToExamine index)" "?red g > minimumReduction opts"
    by (simp_all add: fieldsExceeding_def)
  then have "?red m > minimumReduction opts"
    using m(3) by fastforce
  then have exceeding: "m \<in> set (fieldsExceeding opts index)"
    using m(2) by (simp add: fieldsExceeding_def)
  have "m \<in> set (js_keys (index_fields index))"
    using m(2) by (simp add: fieldsToExamine_def)
  then have "m \<noteq> []"
    using assms(4) by auto
  then have "simplifyIndex opts index = Inr (removeField m index, True)
             \<or> simplifyIndex opts index = Inl TypeError"
    using assms(2,3) m(1,2) by (simp add: simplifyIndex_def fold_choose_last)
  then have "index' = removeField m index \<and> c"
    using assms(1) by auto
  then show ?thesis
    using exceeding m(3) by blast
qed

lemma simplify_all_untouched:
  "simplify_all opts s rs = Inr (s', c) \<Longrightarrow> r \<notin> set rs \<Longrightarrow> s' r = s r"
proof (induction rs arbitrary: s s' c)
  case Nil
  then show ?case by simp
next
  case (Cons x xs)
  from Cons.prems(1) obtain here later where
    here: "simplifyIndex opts (s x) = Inr here"
    and later: "simplify_all opts (s(x := fst here)) xs = Inr later"
    and s': "s' = fst later"
    by (auto split: sum.splits)
  have "simplify_all opts (s(x := fst here)) xs = Inr (fst later, snd later)"
    using later by simp
  moreover have "r \<notin> set xs" "r \<noteq> x"
    using Cons.prems(2) by simp_all
  ultimately have "fst later r = (s(x := fst here)) r"
    using Cons.IH by blast
  then show ?case using s' \<open>r \<noteq> x\<close> by simp
qed

lemma simplify_all_once:
  "simplify_all opts s rs = Inr (s', c) \<Longrightarrow> distinct rs \<Longrightarrow> r \<in> set rs \<Longrightarrow>
   \<exists>c0. simplifyIndex opts (s r) = Inr (s' r, c0)"
proof (induction rs arbitrary: s s' c)
  case Nil
  then show ?case by simp
next
  case (Cons x xs)
  from Cons.prems(1) obtain here later where
    here: "simplifyIndex opts (s x) = Inr here"
    and later: "simplify_all opts (s(x := fst here)) xs = Inr later"
    and s': "s' = fst later"
    by (auto split: sum.splits)
  show ?case
  proof (cases "r = x")
    case True
    then have "r \<notin> set xs" using Cons.prems(2) by simp
    moreover have "simplify_all opts (s(x := fst here)) xs = Inr (fst later, snd later)"
      using later by simp
    ultimately have "fst later r = (s(x := fst here)) r"
      using simplify_all_untouched by blast
    then have "s' r = fst here"
      using s' True by simp
    then show ?thesis using here True by (cases here) auto
  next
    case False
    then have "r \<in> set xs" using Cons.prems(3) by simp
    moreover have "simplify_all opts (s(x := fst here)) xs = Inr (fst later, snd later)"
      using later by simp
    moreover have "distinct xs" using Cons.prems(2) by simp
    ultimately obtain c0 where "simplifyIndex opts ((s(x := fst here)) r) = Inr (fst later r, c0)"
      using Cons.IH by blast
    then show ?thesis using False s' by auto
  qed
qed

text \<open>The keys of an object filled by a loop of assignments.\<close>

lemma uniq_seen_set_cong: "set seen = set seen' \<Longrightarrow> uniq_seen f seen xs = uniq_seen f seen' xs"
proof (induction xs arbitrary: seen seen')
  case Nil
  show ?case by simp
next
  case (Cons x xs)
  have "uniq_seen f (seen @ [f x]) xs = uniq_seen f (seen' @ [f x]) xs"
    using Cons.prems by (intro Cons.IH) simp
  moreover have "uniq_seen f seen xs = uniq_seen f seen' xs"
    using Cons.prems by (rule Cons.IH)
  ultimately show ?case using Cons.prems by simp
qed

lemma uniq_seen_append:
  "uniq_seen f seen (xs @ ys)
   = uniq_seen f seen xs @ uniq_seen f (seen @ map f (uniq_seen f seen xs)) ys"
  by (induction xs arbitrary: seen) simp_all

lemma subseq_uniq_seen: "subseq (uniq_seen f seen xs) xs"
  by (induction xs arbitrary: seen) auto

lemma subseq_uniq: "subseq (uniq xs) xs"
  by (simp add: uniq_def uniq_by_def subseq_uniq_seen)

lemma js_keys_fold_js_set:
  "js_keys (fold (\<lambda>x index. js_set (k x) (v x) index) xs index0)
   = js_keys index0 @ uniq_seen (\<lambda>x. x) (js_keys index0) (map k xs)"
proof (induction xs arbitrary: index0)
  case Nil
  show ?case by simp
next
  case (Cons x xs)
  show ?case
  proof (cases "k x \<in> set (js_keys index0)")
    case True
    then show ?thesis using Cons.IH [of "js_set (k x) (v x) index0"]
      by (simp add: js_keys_js_set)
  next
    case False
    then show ?thesis using Cons.IH [of "js_set (k x) (v x) index0"]
      by (simp add: js_keys_js_set)
  qed
qed

lemma js_set_new_key: "k \<notin> set (js_keys obj) \<Longrightarrow> js_set k v obj = obj @ [(k, v)]"
  by (induction obj) (auto simp: js_keys_def)

lemma fold_js_set_distinct:
  "distinct (map fst kvs) \<Longrightarrow> set (map fst kvs) \<inter> set (js_keys acc) = {} \<Longrightarrow>
   fold (\<lambda>kv obj. js_set (fst kv) (snd kv) obj) kvs acc = acc @ kvs"
proof (induction kvs arbitrary: acc)
  case Nil
  show ?case by simp
next
  case (Cons kv kvs)
  have new: "fst kv \<notin> set (js_keys acc)"
    using Cons.prems(2) by auto
  have "fold (\<lambda>kv obj. js_set (fst kv) (snd kv) obj) kvs (acc @ [kv]) = (acc @ [kv]) @ kvs"
    using Cons.prems by (intro Cons.IH) (auto simp: js_keys_def)
  then show ?case using new by (simp add: js_set_new_key)
qed

lemma js_object_of_distinct: "distinct (js_keys kvs) \<Longrightarrow> js_object_of kvs = kvs"
  using fold_js_set_distinct [of kvs "[]"] by (simp add: js_object_of_def js_keys_def)

lemma js_keys_js_object_of: "js_keys (js_object_of kvs) = uniq (js_keys kvs)"
  using js_keys_fold_js_set [of fst snd kvs "[]"]
  by (simp add: js_object_of_def uniq_def uniq_by_def js_keys_def)

lemma distinct_keys_fold_js_set:
  "distinct (js_keys index0) \<Longrightarrow>
   distinct (js_keys (fold (\<lambda>x index. js_set (k x) (v x) index) xs index0))"
  using uniq_seen_distinct [of "\<lambda>x. x" "js_keys index0" "map k xs"]
    uniq_seen_fresh [of _ "\<lambda>x. x" "js_keys index0" "map k xs"]
  by (auto simp: js_keys_fold_js_set)

text \<open>The keys of the index built for one array prefix, when the sort fields are still an object.\<close>

lemma js_keys_index_for_prefix:
  "js_keys (index_for_prefix es (SortObject kvs) rs) = uniq (es @ js_keys kvs @ rs)"
proof -
  let ?i1 = "fold (\<lambda>field index. js_set field (Dir 1) index) es []"
  let ?i2 = "set_sort_fields (SortObject kvs) ?i1"
  have k1: "js_keys ?i1 = uniq_seen (\<lambda>x. x) [] es"
    using js_keys_fold_js_set [of "\<lambda>x. x" "\<lambda>x. Dir 1" es "[]"] by (simp add: js_keys_def)
  have k2: "js_keys ?i2 = js_keys ?i1 @ uniq_seen (\<lambda>x. x) (js_keys ?i1) (js_keys kvs)"
    using js_keys_fold_js_set [of fst "\<lambda>kv. Dir (snd kv * negateSorting (SortObject kvs))" kvs ?i1]
    by (simp add: set_sort_fields_def js_keys_def)
  have k3: "js_keys (index_for_prefix es (SortObject kvs) rs)
      = js_keys ?i2 @ uniq_seen (\<lambda>x. x) (js_keys ?i2) rs"
    using js_keys_fold_js_set [of "\<lambda>x. x" "\<lambda>x. Dir 1" rs ?i2]
    by (simp add: index_for_prefix_def)
  show ?thesis
    by (simp add: k3 k2 k1 uniq_def uniq_by_def uniq_seen_append)
qed

lemma distinct_keys_index_for_prefix:
  "distinct (js_keys (index_for_prefix es (SortObject kvs) rs))"
  by (simp add: js_keys_index_for_prefix)

lemma index_for_prefix_no_sort:
  "index_for_prefix es (SortArray []) rs = index_for_prefix es (SortObject []) rs"
  by (simp add: index_for_prefix_def set_sort_fields_def)

lemma subseq_elements: "subseq xs ys \<Longrightarrow> set xs \<subseteq> set ys"
  by (induction rule: list_emb.induct) auto

lemma sorted_wrt_subseq: "subseq xs ys \<Longrightarrow> sorted_wrt P ys \<Longrightarrow> sorted_wrt P xs"
proof (induction rule: list_emb.induct)
  case (list_emb_Nil ys)
  show ?case by simp
next
  case (list_emb_Cons xs ys y)
  then show ?case by simp
next
  case (list_emb_Cons2 x y xs ys)
  then have "set xs \<subseteq> set ys" using subseq_elements by blast
  then show ?case using list_emb_Cons2 by auto
qed

lemma sorted_map_subseq: "subseq xs ys \<Longrightarrow> sorted (map f ys) \<Longrightarrow> sorted (map f xs)"
  using sorted_wrt_subseq [of "map f xs" "map f ys"] by (simp add: subseq_map)

text \<open>The lists of line 168 and line 169 are stable sorts of the lists of the profile.\<close>

lemma sortedExact_sorted: "sorted (map (\<lambda>field. - cardinality (keyStat ks field)) (sortedExact ks self))"
  by (simp add: sortedExact_def sortBy_def)

lemma sortedRange_sorted: "sorted (map (\<lambda>field. cardinality (keyStat ks field)) (sortedRange ks self))"
  by (simp add: sortedRange_def sortBy_def)

lemma sortedExact_stable:
  "filter (\<lambda>field. cardinality (keyStat ks field) = c) (sortedExact ks self)
   = filter (\<lambda>field. cardinality (keyStat ks field) = c) (exact self)"
  using sort_key_stable [of "\<lambda>field. - cardinality (keyStat ks field)" "- c" "exact self"]
  by (simp add: sortedExact_def sortBy_def)

lemma sortedRange_stable:
  "filter (\<lambda>field. cardinality (keyStat ks field) = c) (sortedRange ks self)
   = filter (\<lambda>field. cardinality (keyStat ks field) = c) (range self)"
  using sort_key_stable [of "\<lambda>field. cardinality (keyStat ks field)" c "range self"]
  by (simp add: sortedRange_def sortBy_def)

text \<open>The fields that reach the loop over the array prefixes.\<close>

lemma subseq_indexedExact: "subseq (indexedExact opts ks self) (sortedExact ks self)"
proof -
  have "subseq (fst (cardinalityFiltered opts ks self)) (sortedExact ks self)"
    by (simp add: cardinalityFiltered_def Let_def)
  then show ?thesis
    unfolding indexedExact_def using subseq_filter_left subseq_order.trans by blast
qed

lemma subseq_indexedRange: "subseq (indexedRange opts ks self) (sortedRange ks self)"
proof -
  have "subseq (snd (cardinalityFiltered opts ks self)) (sortedRange ks self)"
    by (simp add: cardinalityFiltered_def Let_def)
  then show ?thesis
    unfolding indexedRange_def using subseq_filter_left subseq_order.trans by blast
qed

lemma js_keys_filter: "js_keys (filter (\<lambda>kv. P (fst kv)) kvs) = filter P (js_keys kvs)"
  by (induction kvs) (auto simp: js_keys_def)

lemma subseq_indexedSort: "subseq (js_keys (indexedSort ks self)) (js_keys (sort self))"
proof -
  have "js_keys (indexedSort ks self)
      = uniq (filter (\<lambda>field. field \<notin> set (unIndexableFields ks self)) (js_keys (sort self)))"
    using js_keys_filter [of "\<lambda>field. field \<notin> set (unIndexableFields ks self)" "sort self"]
    by (simp add: indexedSort_def js_keys_js_object_of)
  then show ?thesis
    using subseq_uniq subseq_filter_left subseq_order.trans by metis
qed

lemma subseq_fields_for_prefix: "subseq (fields_for_prefix ks arrayPrefix fs) fs"
  by (simp add: fields_for_prefix_def split: option.splits)

text \<open>
  The loop over the array prefixes when no prefix is given or no sort field is left: the
  filter of line 221 has nothing to look up.
\<close>

lemma compound_for_prefix_plain:
  assumes "arrayPrefix = None \<or> sort3 = []"
  shows "compound_for_prefix ks coll exact3 sort3 range3 arrayPrefix
         = (if js_keys (index_for_prefix (fields_for_prefix ks arrayPrefix exact3) (SortObject sort3)
                          (fields_for_prefix ks arrayPrefix range3)) \<noteq> []
            then Inr [MongoIndex_new
                        (index_for_prefix (fields_for_prefix ks arrayPrefix exact3) (SortObject sort3)
                           (fields_for_prefix ks arrayPrefix range3)) coll None]
            else Inr [])"
proof (cases "sort_for_prefix ks arrayPrefix sort3 = Inr (SortObject sort3)")
  case True
  then show ?thesis by (simp add: compound_for_prefix_def)
next
  case False
  then have "sort3 = []" using assms by (auto simp: sort_for_prefix_def)
  moreover from this have "sort_for_prefix ks arrayPrefix sort3 = Inr (SortArray [])"
    using False by (auto simp: sort_for_prefix_def split: option.splits)
  ultimately show ?thesis
    by (simp add: compound_for_prefix_def index_for_prefix_no_sort)
qed

lemma compounds_for_prefixes_plain:
  assumes "\<forall>p \<in> set ps. p = None \<or> sort3 = []"
  shows "compounds_for_prefixes ks coll exact3 sort3 range3 ps
         = Inr (concat (map (\<lambda>p.
             if js_keys (index_for_prefix (fields_for_prefix ks p exact3) (SortObject sort3)
                           (fields_for_prefix ks p range3)) \<noteq> []
             then [MongoIndex_new
                     (index_for_prefix (fields_for_prefix ks p exact3) (SortObject sort3)
                        (fields_for_prefix ks p range3)) coll None]
             else []) ps))"
  using assms
proof (induction ps)
  case Nil
  show ?case by simp
next
  case (Cons p ps)
  have here: "p = None \<or> sort3 = []" using Cons.prems by auto
  have "\<forall>p \<in> set ps. p = None \<or> sort3 = []" using Cons.prems by auto
  then show ?case
    using Cons.IH compound_for_prefix_plain [OF here] by simp
qed

lemma index_fields_MongoIndex_new_plain:
  "index_fields (MongoIndex_new (index_for_prefix es (SortObject kvs) rs) coll name)
   = index_for_prefix es (SortObject kvs) rs"
  by (simp add: MongoIndex_new_def js_object_of_distinct distinct_keys_index_for_prefix)

lemma hashed_index_has_hashed_field: "hasHashedField (MongoIndex_new [(field, Hashed)] coll name)"
  by (simp add: hasHashedField_def MongoIndex_new_def js_object_of_def)

text \<open>
  The compound indexes of a profile: every index without a hashed field that the getter
  returns is the index of one of the array prefixes.
\<close>

lemma optimizedIndexes_compound:
  assumes "optimizedIndexes opts (Some ks) self = Inr idxs"
    and "length (referencedArrayPrefixes opts ks self) < 2 \<or> indexedSort ks self = []"
    and "index \<in> set idxs" and "\<not> hasHashedField index"
  shows "\<exists>p \<in> set (arrayPrefixesToIndex opts ks self).
           index_fields index
           = index_for_prefix (fields_for_prefix ks p (indexedExact opts ks self))
               (SortObject (indexedSort ks self)) (fields_for_prefix ks p (indexedRange opts ks self))"
proof -
  let ?ps = "arrayPrefixesToIndex opts ks self"
  let ?idx = "\<lambda>p. index_for_prefix (fields_for_prefix ks p (indexedExact opts ks self))
      (SortObject (indexedSort ks self)) (fields_for_prefix ks p (indexedRange opts ks self))"
  let ?compounds = "concat (map (\<lambda>p. if js_keys (?idx p) \<noteq> []
      then [MongoIndex_new (?idx p) (collectionName self) None] else []) ?ps)"
  have "\<forall>p \<in> set ?ps. p = None \<or> indexedSort ks self = []"
    using assms(2) by (auto simp: arrayPrefixesToIndex_def)
  then have "compounds_for_prefixes ks (collectionName self) (indexedExact opts ks self)
      (indexedSort ks self) (indexedRange opts ks self) ?ps = Inr ?compounds"
    by (rule compounds_for_prefixes_plain)
  then have "idxs = ?compounds
      @ map (\<lambda>field. MongoIndex_new [(field, Hashed)] (collectionName self) None)
          (unIndexableFields ks self)"
    using assms(1) by (simp add: optimizedIndexes_def split: if_splits)
  then have "index \<in> set ?compounds"
    using assms(3,4) hashed_index_has_hashed_field by auto
  then obtain p where "p \<in> set ?ps" "index = MongoIndex_new (?idx p) (collectionName self) None"
    by (auto split: if_splits)
  then show ?thesis
    using index_fields_MongoIndex_new_plain by blast
qed

text \<open>The whole result of the getter when the filter of line 221 has nothing to look up.\<close>

lemma not_hashed_index_for_prefix:
  "\<not> hasHashedField (MongoIndex_new (index_for_prefix es (SortObject kvs) rs) coll name)"
proof -
  have set_dir: "list_all (\<lambda>kv. snd kv \<noteq> Hashed) (js_set k (Dir d) obj)"
    if "list_all (\<lambda>kv. snd kv \<noteq> Hashed) obj" for k d and obj :: "direction js_object"
    using that by (induction obj) auto
  have fold_dir: "list_all (\<lambda>kv. snd kv \<noteq> Hashed) (fold (\<lambda>x index. js_set (k x) (Dir (d x)) index) xs obj)"
    if "list_all (\<lambda>kv. snd kv \<noteq> Hashed) obj"
    for k :: "'x \<Rightarrow> string" and d xs and obj :: "direction js_object"
    using that by (induction xs arbitrary: obj) (simp_all add: set_dir)
  have "list_all (\<lambda>kv. snd kv \<noteq> Hashed) (index_for_prefix es (SortObject kvs) rs)"
    unfolding index_for_prefix_def set_sort_fields_def
    by (auto intro!: fold_dir)
  then show ?thesis
    by (simp add: hasHashedField_def index_fields_MongoIndex_new_plain list_all_iff list_ex_iff)
qed

lemma optimizedIndexes_plain:
  assumes "optimizedIndexes opts (Some ks) self = Inr idxs"
    and "length (referencedArrayPrefixes opts ks self) < 2 \<or> indexedSort ks self = []"
  shows "filter (\<lambda>index. \<not> hasHashedField index) idxs
         = concat (map (\<lambda>p.
             if js_keys (index_for_prefix (fields_for_prefix ks p (indexedExact opts ks self))
                           (SortObject (indexedSort ks self))
                           (fields_for_prefix ks p (indexedRange opts ks self))) \<noteq> []
             then [MongoIndex_new
                     (index_for_prefix (fields_for_prefix ks p (indexedExact opts ks self))
                        (SortObject (indexedSort ks self))
                        (fields_for_prefix ks p (indexedRange opts ks self)))
                     (collectionName self) None]
             else []) (arrayPrefixesToIndex opts ks self))"
proof -
  let ?ps = "arrayPrefixesToIndex opts ks self"
  let ?idx = "\<lambda>p. index_for_prefix (fields_for_prefix ks p (indexedExact opts ks self))
      (SortObject (indexedSort ks self)) (fields_for_prefix ks p (indexedRange opts ks self))"
  let ?compounds = "concat (map (\<lambda>p. if js_keys (?idx p) \<noteq> []
      then [MongoIndex_new (?idx p) (collectionName self) None] else []) ?ps)"
  let ?hashed = "map (\<lambda>field. MongoIndex_new [(field, Hashed)] (collectionName self) None)
      (unIndexableFields ks self)"
  have "\<forall>p \<in> set ?ps. p = None \<or> indexedSort ks self = []"
    using assms(2) by (auto simp: arrayPrefixesToIndex_def)
  then have "compounds_for_prefixes ks (collectionName self) (indexedExact opts ks self)
      (indexedSort ks self) (indexedRange opts ks self) ?ps = Inr ?compounds"
    by (rule compounds_for_prefixes_plain)
  then have idxs: "idxs = ?compounds @ ?hashed"
    using assms(1) by (simp add: optimizedIndexes_def split: if_splits)
  have "filter (\<lambda>index. \<not> hasHashedField index) ?compounds = ?compounds"
    by (auto simp: filter_id_conv not_hashed_index_for_prefix split: if_splits)
  moreover have "filter (\<lambda>index. \<not> hasHashedField index) ?hashed = []"
    by (auto simp: filter_empty_conv hashed_index_has_hashed_field)
  ultimately show ?thesis
    using idxs by simp
qed

lemma length_concat_at_most_one: "\<forall>x \<in> set xs. length (f x) \<le> 1 \<Longrightarrow> length (concat (map f xs)) \<le> length xs"
  by (induction xs) auto

lemma uniq_empty: "uniq xs = [] \<longleftrightarrow> xs = []"
  using set_uniq [of xs] by (metis set_empty)

lemma fields_for_prefix_keeps_plain_fields:
  "f \<in> set fs \<Longrightarrow> arrayPrefixes (keyStat ks f) = [] \<Longrightarrow> f \<in> set (fields_for_prefix ks p fs)"
  by (auto simp: fields_for_prefix_def keeps_for_prefix_def split: option.splits)

text \<open>The two comparisons of indexes read the fields only.\<close>

lemma isSameAs_fields: "isSameAs a b \<longleftrightarrow> index_fields a = index_fields b"
proof -
  have "(\<lambda>x y. fst x = fst y \<and> snd x = snd y) = ((=) :: string \<times> direction \<Rightarrow> _)"
    by (auto simp: fun_eq_iff)
  then show ?thesis
    by (auto simp: isSameAs_def list_all2_eq [symmetric] dest: list_all2_lengthD)
qed

lemma isIndexPrefixOf_fields:
  "isIndexPrefixOf a b \<longleftrightarrow>
     length (index_fields a) < length (index_fields b)
     \<and> index_fields a = take (length (index_fields a)) (index_fields b)"
proof -
  have "(\<lambda>x y. fst x = fst y \<and> snd x = snd y) = ((=) :: string \<times> direction \<Rightarrow> _)"
    by (auto simp: fun_eq_iff)
  then show ?thesis
    by (auto simp: isIndexPrefixOf_def list_all2_eq [symmetric])
qed

lemma same_is_no_prefix: "isSameAs a b \<Longrightarrow> \<not> isIndexPrefixOf a b"
  by (simp add: isSameAs_fields isIndexPrefixOf_fields)

lemma prefix_of_same:
  "isSameAs a a' \<Longrightarrow> isSameAs b b' \<Longrightarrow> isIndexPrefixOf a b \<longleftrightarrow> isIndexPrefixOf a' b'"
  by (simp add: isSameAs_fields isIndexPrefixOf_fields)

lemma same_canonicalString: "isSameAs a b \<Longrightarrow> canonicalString a = canonicalString b"
  by (simp add: isSameAs_fields canonicalString_def)

text \<open>What one profile sees of the others, and what its step leaves when it finds no prefix.\<close>

lemma in_other_indexes:
  "(j, r) \<in> set (other_indexes ps i) \<longleftrightarrow>
     j < length ps \<and> j \<noteq> i
     \<and> collectionName (profile (ps ! i)) = collectionName (profile (ps ! j))
     \<and> r \<in> set (reducedIndexes (ps ! j))"
  by (auto simp: other_indexes_def)

lemma no_prefix_found:
  assumes "\<not> found_prefix s ps i" and "a \<in> set (reducedIndexes (ps ! i))"
    and "j < length ps" and "j \<noteq> i"
    and "collectionName (profile (ps ! i)) = collectionName (profile (ps ! j))"
    and "b \<in> set (reducedIndexes (ps ! j))"
  shows "\<not> isIndexPrefixOf (s a) (s b)"
proof
  assume prefix: "isIndexPrefixOf (s a) (s b)"
  have "\<not> 0 < length (lhsPrefixedIndexes s ps i a)"
    using assms(1,2) unfolding found_prefix_def list_ex_iff by blast
  then have "lhsPrefixedIndexes s ps i a = []"
    by simp
  moreover have "(j, b) \<in> set (other_indexes ps i)"
    using assms(3-6) by (simp add: in_other_indexes)
  ultimately have "isSameAs (s a) (s b)"
    using prefix by (auto simp: lhsPrefixedIndexes_def filter_empty_conv)
  then show False
    using prefix same_is_no_prefix by blast
qed

lemma in_lhsSameIndexes: "a \<in> set (lhsSameIndexes s ps i a0) \<Longrightarrow> isSameAs (s a0) (s a)"
  unfolding lhsSameIndexes_def by (induction "other_indexes ps i") auto

lemma in_replacement:
  assumes "lhsPrefixedIndexes s ps i a0 = []" and "a \<in> set (replacement s ps i a0)"
  shows "isSameAs (s a0) (s a)"
proof (cases "lhsSameIndexes s ps i a0 = []")
  case True
  then have "a = a0"
    using assms by (simp add: replacement_def)
  then show ?thesis
    by (simp add: isSameAs_fields)
next
  case False
  then have "a \<in> set (lhsSameIndexes s ps i a0)"
    using assms by (simp add: replacement_def)
  then show ?thesis
    by (rule in_lhsSameIndexes)
qed

lemma new_index_is_an_old_one:
  assumes "\<not> found_prefix s ps i" and "a \<in> set (newLHSIndexes s ps i)"
  shows "\<exists>a0 \<in> set (reducedIndexes (ps ! i)). isSameAs (s a) (s a0)"
proof -
  have "set (newLHSIndexes s ps i)
        \<subseteq> set (concat (map (replacement s ps i) (reducedIndexes (ps ! i))))"
    unfolding newLHSIndexes_def by (rule uniq_by_subset)
  then have "a \<in> set (concat (map (replacement s ps i) (reducedIndexes (ps ! i))))"
    using assms(2) by (rule subsetD)
  then obtain a0 where a0: "a0 \<in> set (reducedIndexes (ps ! i))" "a \<in> set (replacement s ps i a0)"
    by auto
  have "\<not> 0 < length (lhsPrefixedIndexes s ps i a0)"
    using assms(1) a0(1) unfolding found_prefix_def list_ex_iff by blast
  then have "lhsPrefixedIndexes s ps i a0 = []"
    by simp
  then have "isSameAs (s a0) (s a)"
    using a0(2) by (rule in_replacement)
  then have "isSameAs (s a) (s a0)"
    by (simp add: isSameAs_fields)
  then show ?thesis
    using a0(1) by blast
qed

lemma new_indexes_differ: "distinct (map (\<lambda>a. canonicalString (s a)) (newLHSIndexes s ps i))"
  by (simp add: newLHSIndexes_def uniq_by_distinct)

text \<open>A round changes the list of one profile at a time and nothing else.\<close>

lemma map_update_same: "(map f xs)[i := f (xs ! i)] = map f xs"
  by (cases "i < length xs") (simp_all add: list_update_same_conv list_update_beyond)

lemma reduce_step_shape:
  "length (fst (reduce_step s i st)) = length (fst st)"
  "map profile (fst (reduce_step s i st)) = map profile (fst st)"
  "j \<noteq> i \<Longrightarrow> fst (reduce_step s i st) ! j = fst st ! j"
  "snd st \<Longrightarrow> snd (reduce_step s i st)"
  by (simp_all add: reduce_step_def map_update map_update_same)

lemma reduce_steps_shape:
  "length (fst (fold (reduce_step s) xs st)) = length (fst st)"
  "map profile (fst (fold (reduce_step s) xs st)) = map profile (fst st)"
  by (induction xs arbitrary: st) (simp_all add: reduce_step_shape)

lemma reduce_steps_untouched:
  "j \<notin> set xs \<Longrightarrow> fst (fold (reduce_step s) xs st) ! j = fst st ! j"
  by (induction xs arbitrary: st) (simp_all add: reduce_step_shape)

lemma reduce_steps_changed: "snd st \<Longrightarrow> snd (fold (reduce_step s) xs st)"
  by (induction xs arbitrary: st) (simp_all add: reduce_step_shape)

lemma same_profile_at:
  "map profile qs = map profile ps \<Longrightarrow> j < length ps \<Longrightarrow> profile (qs ! j) = profile (ps ! j)"
  by (metis length_map nth_map)

text \<open>
  The round seen from the profile at position \<open>i\<close>: the state before its step, its step, and
  the steps after it.
\<close>

lemma reduce_pass_split:
  assumes "i < length ps"
  shows "reduce_pass s ps
         = fold (reduce_step s) [Suc i..<length ps]
             (reduce_step s i (fold (reduce_step s) [0..<i] (ps, False)))"
proof -
  have "[0..<length ps] = [0..<i] @ [i..<length ps]"
    using assms upt_add_eq_append [of 0 i "length ps - i"] by simp
  moreover have "[i..<length ps] = i # [Suc i..<length ps]"
    using assms by (simp add: upt_conv_Cons)
  ultimately show ?thesis
    by (simp add: reduce_pass_def)
qed

lemma reduce_pass_at:
  assumes "reduce_pass s ps = (r, False)" and "i < length ps"
  shows "\<exists>q. length q = length ps \<and> map profile q = map profile ps
           \<and> (\<forall>j < length ps. i \<le> j \<longrightarrow> q ! j = ps ! j)
           \<and> (\<forall>j < i. q ! j = r ! j)
           \<and> \<not> found_prefix s q i
           \<and> reducedIndexes (r ! i) = newLHSIndexes s q i"
proof -
  let ?before = "fold (reduce_step s) [0..<i] (ps, False)"
  let ?q = "fst ?before"
  let ?at = "reduce_step s i ?before"
  have split: "fold (reduce_step s) [Suc i..<length ps] ?at = (r, False)"
    using assms reduce_pass_split by simp
  have len: "length ?q = length ps" and prof: "map profile ?q = map profile ps"
    by (simp_all add: reduce_steps_shape)
  have later: "\<forall>j < length ps. i \<le> j \<longrightarrow> ?q ! j = ps ! j"
    by (simp add: reduce_steps_untouched)
  have "\<not> snd ?at"
    using split reduce_steps_changed [of ?at s "[Suc i..<length ps]"] by auto
  then have quiet: "\<not> found_prefix s ?q i"
    by (simp add: reduce_step_def)
  have r_at: "r ! j = fst ?at ! j" if "j \<le> i" for j
    using that split reduce_steps_untouched [of j "[Suc i..<length ps]" s ?at] by simp
  have earlier: "\<forall>j < i. ?q ! j = r ! j"
    using r_at by (simp add: reduce_step_shape)
  have "r ! i = (?q ! i) \<lparr> reducedIndexes := newLHSIndexes s ?q i \<rparr>"
    using r_at [of i] assms(2) len by (simp add: reduce_step_def)
  then have "reducedIndexes (r ! i) = newLHSIndexes s ?q i"
    by simp
  then show ?thesis
    using len prof later earlier quiet by blast
qed

text \<open>A round that finds no prefix leaves no prefix between two profiles of a collection.\<close>

lemma quiet_pass_shape:
  assumes "reduce_pass s ps = (r, c)"
  shows "length r = length ps" and "map profile r = map profile ps"
  using assms reduce_steps_shape [of s "[0..<length ps]" "(ps, False)"]
  by (auto simp: reduce_pass_def)

lemma quiet_pass_prefix_free:
  assumes pass: "reduce_pass s ps = (r, False)"
    and i: "i < length r" and j: "j < length r" and "i \<noteq> j"
    and coll: "collectionName (profile (r ! i)) = collectionName (profile (r ! j))"
    and a: "a \<in> set (reducedIndexes (r ! i))" and b: "b \<in> set (reducedIndexes (r ! j))"
  shows "\<not> isIndexPrefixOf (s a) (s b)"
proof -
  have len: "length r = length ps" and prof: "map profile r = map profile ps"
    using quiet_pass_shape [OF pass] by simp_all
  have "i < length ps" and "j < length ps"
    using i j len by simp_all
  from reduce_pass_at [OF pass \<open>i < length ps\<close>] obtain q where q:
    "length q = length ps" "map profile q = map profile ps"
    "\<forall>k < length ps. i \<le> k \<longrightarrow> q ! k = ps ! k" "\<forall>k < i. q ! k = r ! k"
    "\<not> found_prefix s q i" "reducedIndexes (r ! i) = newLHSIndexes s q i"
    by auto
  from reduce_pass_at [OF pass \<open>j < length ps\<close>] obtain q' where q':
    "length q' = length ps" "map profile q' = map profile ps"
    "\<forall>k < length ps. j \<le> k \<longrightarrow> q' ! k = ps ! k" "\<forall>k < j. q' ! k = r ! k"
    "\<not> found_prefix s q' j" "reducedIndexes (r ! j) = newLHSIndexes s q' j"
    by auto
  from new_index_is_an_old_one [OF q(5)] a q(6)
  obtain a0 where a0: "a0 \<in> set (reducedIndexes (q ! i))" "isSameAs (s a) (s a0)"
    by auto
  have coll_q: "collectionName (profile (q ! i)) = collectionName (profile (q ! j))"
    using coll i j len prof q(2) same_profile_at by metis
  have "\<exists>b0 \<in> set (reducedIndexes (q ! j)). isSameAs (s b) (s b0)"
  proof (cases "j < i")
    case True
    then have "q ! j = r ! j" using q(4) by simp
    then show ?thesis using b by (auto simp: isSameAs_fields)
  next
    case False
    then have "q ! j = ps ! j" using q(3) j len by simp
    moreover have "q' ! j = ps ! j" using q'(3) j len by simp
    ultimately show ?thesis
      using new_index_is_an_old_one [OF q'(5)] b q'(6) by simp
  qed
  then obtain b0 where b0: "b0 \<in> set (reducedIndexes (q ! j))" "isSameAs (s b) (s b0)"
    by blast
  have "\<not> isIndexPrefixOf (s a0) (s b0)"
    using no_prefix_found [OF q(5) a0(1) _ _ coll_q b0(1)] j len q(1) \<open>i \<noteq> j\<close> by simp
  then show ?thesis
    using prefix_of_same [OF a0(2) b0(2)] by simp
qed

lemma quiet_pass_no_duplicates:
  assumes "reduce_pass s ps = (r, False)" and "i < length r"
  shows "distinct (map (\<lambda>a. canonicalString (s a)) (reducedIndexes (r ! i)))"
proof -
  have "i < length ps"
    using quiet_pass_shape [OF assms(1)] assms(2) by simp
  from reduce_pass_at [OF assms(1) this]
  obtain q where "reducedIndexes (r ! i) = newLHSIndexes s q i"
    by auto
  then show ?thesis
    by (simp add: new_indexes_differ)
qed

text \<open>When the loop ends, its last round found no prefix.\<close>

lemma reduce_loop_last_round:
  assumes "reduce_loop s ps = Some r"
  shows "\<exists>q. reduce_pass s q = (r, False) \<and> length q = length ps \<and> map profile q = map profile ps"
proof (rule reduce_loop.raw_induct
    [where P = "\<lambda>s ps r. \<exists>q. reduce_pass s q = (r, False) \<and> length q = length ps
                               \<and> map profile q = map profile ps", OF _ assms])
  fix loop s ps r
  assume IH: "\<And>s ps r. loop s ps = Some r \<Longrightarrow>
                \<exists>q. reduce_pass s q = (r, False) \<and> length q = length ps
                    \<and> map profile q = map profile ps"
    and body: "(if snd (reduce_pass s ps) then loop s (fst (reduce_pass s ps))
                else Some (fst (reduce_pass s ps))) = Some r"
  show "\<exists>q. reduce_pass s q = (r, False) \<and> length q = length ps \<and> map profile q = map profile ps"
  proof (cases "snd (reduce_pass s ps)")
    case True
    then have "loop s (fst (reduce_pass s ps)) = Some r"
      using body by simp
    from IH [OF this] obtain q where "reduce_pass s q = (r, False)"
      "length q = length (fst (reduce_pass s ps))"
      "map profile q = map profile (fst (reduce_pass s ps))"
      by blast
    then show ?thesis
      using quiet_pass_shape [of s ps "fst (reduce_pass s ps)" "snd (reduce_pass s ps)"] by auto
  next
    case False
    then have "reduce_pass s ps = (r, False)"
      using body by (cases "reduce_pass s ps") auto
    then show ?thesis by blast
  qed
qed

section \<open>Persisted statistics\<close>

text \<open>
  C6. Saving a CollectionStatistics with \<open>toJSON\<close> and loading it again should give back
  the field paths it had. For the single path \<open>a.b.c\<close> the loaded object has the key
  \<open>a.b_____c\<close> instead: \<open>toJSON\<close> encodes every period, the constructor decodes only the
  first separator.
\<close>

theorem C6_roundtrip_loses_second_period:
  "js_keys (fieldStatistics (CollectionStatistics_constructor (CollectionStatistics_toJSON
      \<lparr> fieldStatistics = [(''a.b.c'', \<lparr> mode = Normal, cardinality = 7, longest = 3, arrayPrefixes = [] \<rparr>)],
        knownArrayPrefixes = [], lastSampleTime = 0 \<rparr>)))
   = [''a.b_____c'']"
  by (simp add: CollectionStatistics_constructor_def CollectionStatistics_toJSON_def
      mongoFieldNamePartSeparator_def js_keys_def)

section \<open>Decomposition of a disjunctive query\<close>

text \<open>
  C4, as the specification states it: the query of S1, sorted by \<open>{birthday: -1}\<close>, gives the
  two profiles \<open>{exact: {name}, sort: {birthday: -1}, range: {email}}\<close> and
  \<open>{exact: {name, status}, sort: {birthday: -1}, range: {email}}\<close>. It does not: the exact,
  sort and range fields of the profiles produced are not these.
\<close>

theorem C4_second_profile_differs:
  "map (\<lambda>p. (set (exact p), sort p, set (range p)))
     (projr (createQueryProfilesFromMongoQuery ''db.users'' S1_query [(''birthday'', - 1)] 0))
   \<noteq> [({''name''}, [(''birthday'', - 1)], {''email''}),
       ({''name'', ''status''}, [(''birthday'', - 1)], {''email''})]"
  by (simp add: createQueryProfilesFromMongoQuery_def S1_query_def start_analysis_def
      array_operand_def truthy_def push_exact_def push_range_def mergeSubQueries_def
      mergeQueryProfiles_def trimPeriods_def range_operators_def ignored_operators_def
      QueryProfile_constructor_def comment_source_def uniq_def uniq_by_def)

text \<open>
  C4, amended: the query of S1, sorted by \<open>{birthday: -1}\<close>, gives exactly two profiles, one
  for each disjunct of the \<open>$or\<close>: \<open>{exact: [name], sort: {birthday: -1}, range: [email]}\<close> and
  \<open>{exact: [name, status, email], sort: {birthday: -1}, range: []}\<close>. In the second disjunct
  \<open>email\<close> is compared with a string, which makes it an exact-match field.
\<close>

theorem C4_or_expansion:
  "createQueryProfilesFromMongoQuery ''db.users'' S1_query [(''birthday'', - 1)] now
   = Inr [\<lparr> namespace = ''db.users'', exact = [''name''], sort = [(''birthday'', - 1)],
            range = [''email''], lastQueryTime = now, usageCount = 0,
            sources = [\<lparr> source = ''anonymous'', version = [] \<rparr>] \<rparr>,
          \<lparr> namespace = ''db.users'', exact = [''name'', ''status'', ''email''],
            sort = [(''birthday'', - 1)], range = [], lastQueryTime = now, usageCount = 0,
            sources = [\<lparr> source = ''anonymous'', version = [] \<rparr>] \<rparr>]"
  by (simp add: createQueryProfilesFromMongoQuery_def S1_query_def start_analysis_def
      array_operand_def truthy_def push_exact_def push_range_def mergeSubQueries_def
      mergeQueryProfiles_def trimPeriods_def range_operators_def ignored_operators_def
      QueryProfile_constructor_def comment_source_def uniq_def uniq_by_def)

section \<open>A sorted query over two arrays\<close>

text \<open>
  C10. There is a profile whose fields reference two array prefixes and whose sort is not
  empty for which \<open>optimizedIndexes\<close> raises a TypeError instead of returning indexes: the
  query of S6 sorted by \<open>{birthday: -1}\<close>. Its fields reference the prefixes \<open>statuses\<close> and
  \<open>names\<close>; the filter of line 221 then looks for statistics of a field called \<open>-1\<close>.
\<close>

theorem C10_sorted_parallel_arrays_raise:
  "sort S6_sorted_profile = [(''birthday'', - 1)] \<and>
   referencedArrayPrefixes default_options S6_statistics S6_sorted_profile = [''statuses'', ''names''] \<and>
   js_get S6_statistics (number_string (- 1)) = None \<and>
   optimizedIndexes default_options (Some S6_statistics) S6_sorted_profile = Inl TypeError"
  by code_simp

section \<open>Adding an equivalent profile\<close>

text \<open>
  C9, as the specification states it: after two equivalent profiles are added to an empty
  set, the sources of the one profile in the set are the union of the sources of both.
  For a query seen from version \<open>1.0.0\<close> and then from version \<open>1.0.1\<close> of the same source
  they are not: the source keeps its name and takes the later version.
\<close>

theorem C9_sources_are_not_the_union:
  "set (sources (hd (queryProfiles
      (fst (addQueryProfile (fst (addQueryProfile QuerySet_empty first_observation 1))
         second_observation 2)))))
   \<noteq> set (sources first_observation) \<union> set (sources second_observation)"
  by (simp add: addQueryProfile_def QuerySet_empty_def first_observation_def
      second_observation_def isEquivalentToQueryProfile_def incrementUsageCount_def
      merge_into_def addSource_def difference_def uniq_def uniq_by_def js_keys_def)

text \<open>
  C9, amended. Two profiles with the same namespace, the same set of exact fields, the same
  sort keys with the same direction on each and the same set of range fields are added to
  an empty set, the first one not counted before. Then the set holds exactly one profile:
  the first one, with usage count 2, the time of the second addition, and the sources
  merged by name: every source of the second profile, and the sources of the first whose
  name the second does not have. The field lists and source names of a profile are free
  of duplicates, as they are for every profile the decomposer builds.
\<close>

theorem C9_equivalent_profiles_merge:
  assumes "namespace p2 = namespace p1"
    and "set (exact p2) = set (exact p1)" and "distinct (exact p2)" and "distinct (exact p1)"
    and "js_get (sort p2) = js_get (sort p1)"
    and "distinct (js_keys (sort p2))" and "distinct (js_keys (sort p1))"
    and "set (range p2) = set (range p1)" and "distinct (range p2)" and "distinct (range p1)"
    and "usageCount p1 = 0"
    and "distinct (map source (sources p1))" and "distinct (map source (sources p2))"
  shows "\<exists>r. queryProfiles (fst (addQueryProfile (fst (addQueryProfile QuerySet_empty p1 t1)) p2 t2)) = [r]
           \<and> usageCount r = 2
           \<and> namespace r = namespace p1 \<and> exact r = exact p1 \<and> sort r = sort p1 \<and> range r = range p1
           \<and> lastQueryTime r = t2
           \<and> set (sources r)
               = set (sources p2) \<union> {s \<in> set (sources p1). source s \<notin> source ` set (sources p2)}"
proof -
  let ?q1 = "incrementUsageCount p1"
  have first: "fst (addQueryProfile QuerySet_empty p1 t1) = \<lparr> queryProfiles = [?q1] \<rparr>"
    by (simp add: addQueryProfile_def QuerySet_empty_def)
  have "isEquivalentToQueryProfile p2 ?q1"
    using assms(1-10) by (intro equivalent_of_same_fields) (simp_all add: incrementUsageCount_def)
  then have second:
    "queryProfiles (fst (addQueryProfile \<lparr> queryProfiles = [?q1] \<rparr> p2 t2)) = [merge_into p2 t2 ?q1]"
    by (simp add: addQueryProfile_def)
  let ?r = "merge_into p2 t2 ?q1"
  have "usageCount ?r = 2"
    using assms(11) by (simp add: merge_into_def fold_addSource_keeps incrementUsageCount_def)
  moreover have "namespace ?r = namespace p1" "exact ?r = exact p1" "sort ?r = sort p1"
    "range ?r = range p1" "lastQueryTime ?r = t2"
    by (simp_all add: merge_into_def fold_addSource_keeps incrementUsageCount_def)
  moreover have "set (sources ?r)
      = set (sources p2) \<union> {s \<in> set (sources p1). source s \<notin> source ` set (sources p2)}"
    using assms(12,13) fold_addSource_sources [of "incrementUsageCount (?q1 \<lparr> lastQueryTime := t2 \<rparr>)" "sources p2"]
    by (simp add: merge_into_def incrementUsageCount_def)
  ultimately show ?thesis using first second by simp
qed

theorem C9_equivalent_profiles_merge_witness:
  "\<exists>r. queryProfiles (fst (addQueryProfile (fst (addQueryProfile QuerySet_empty first_observation 1))
            second_observation 2)) = [r]
       \<and> usageCount r = 2
       \<and> namespace r = namespace first_observation \<and> exact r = exact first_observation
       \<and> sort r = sort first_observation \<and> range r = range first_observation
       \<and> lastQueryTime r = 2
       \<and> set (sources r)
           = set (sources second_observation)
             \<union> {s \<in> set (sources first_observation).
                  source s \<notin> source ` set (sources second_observation)}"
  by (rule C9_equivalent_profiles_merge [of second_observation first_observation 1 2])
    (simp_all add: first_observation_def second_observation_def js_keys_def)

section \<open>Ownership of indexes in the reconciler\<close>




section \<open>One pass of the field reduction\<close>

text \<open>
  C3, as the specification states it: of an index with more than one field, a pass removes
  the last field, in index order, that is no sort key and whose reduction exceeds
  \<open>minimumReduction\<close>. For the index on \<open>name\<close> and \<open>birthday\<close> with reductions 0.9 and 0.8 and
  the threshold 0.7 that field is \<open>birthday\<close>; the pass removes \<open>name\<close>, whose reduction is
  the greatest.
\<close>

theorem C3_greatest_reduction_is_removed:
  "last (fieldsExceeding default_options (name_birthday_index (9 / 10) (8 / 10))) = ''birthday''
   \<and> simplifyIndex default_options (name_birthday_index (9 / 10) (8 / 10))
       = Inr (removeField ''name'' (name_birthday_index (9 / 10) (8 / 10)), True)
   \<and> js_keys (index_fields (removeField ''name'' (name_birthday_index (9 / 10) (8 / 10))))
       = [''birthday'']"
  by code_simp

text \<open>
  C3, amended. In a pass of the field reduction, for every index a profile of the
  collection holds and that has more than one field: the fields examined are those that
  are not a sort key of a profile the index serves; if the reduction of none of them
  exceeds \<open>minimumReduction\<close>, the index is unchanged; otherwise exactly one field is
  removed, and it is an examined field whose reduction exceeds \<open>minimumReduction\<close> and is
  the greatest among the examined fields. The field names of an index are distinct and
  not empty.
\<close>

theorem C3_one_field_per_pass:
  assumes "simplification_pass opts s collectionQueryProfiles = Inr (s', cont)"
    and "r \<in> set (concat (map reducedIndexes collectionQueryProfiles))"
    and "length (js_keys (index_fields (s r))) > 1"
    and "distinct (js_keys (index_fields (s r)))"
    and "[] \<notin> set (js_keys (index_fields (s r)))"
  shows "set (fieldsToExamine (s r))
           = set (js_keys (index_fields (s r)))
             - (\<Union>queryProfile \<in> set (knownQueryProfiles (s r)). set (js_keys (sort queryProfile)))
         \<and> (fieldsExceeding opts (s r) = [] \<longrightarrow> s' r = s r)
         \<and> (fieldsExceeding opts (s r) \<noteq> [] \<longrightarrow>
              (\<exists>f \<in> set (fieldsExceeding opts (s r)).
                 (\<forall>g \<in> set (fieldsToExamine (s r)).
                    the (field_reduction (s r) g) \<le> the (field_reduction (s r) f))
                 \<and> s' r = removeField f (s r)
                 \<and> js_keys (index_fields (s' r)) = remove1 f (js_keys (index_fields (s r)))))"
proof -
  let ?refs = "uniq (concat (map reducedIndexes collectionQueryProfiles))"
  have "simplify_all opts s ?refs = Inr (s', cont)"
    using assms(1) by (simp add: simplification_pass_def)
  moreover have "distinct ?refs" "r \<in> set ?refs"
    using assms(2) by simp_all
  ultimately obtain c0 where step: "simplifyIndex opts (s r) = Inr (s' r, c0)"
    using simplify_all_once by blast
  have examined: "set (fieldsToExamine (s r))
      = set (js_keys (index_fields (s r)))
        - (\<Union>queryProfile \<in> set (knownQueryProfiles (s r)). set (js_keys (sort queryProfile)))"
    by (simp add: fieldsToExamine_def sortFields_def)
  have unchanged: "s' r = s r" if "fieldsExceeding opts (s r) = []"
    using simplifyIndex_unchanged [OF step that] by simp
  have removed: "\<exists>f \<in> set (fieldsExceeding opts (s r)).
      (\<forall>g \<in> set (fieldsToExamine (s r)).
         the (field_reduction (s r) g) \<le> the (field_reduction (s r) f))
      \<and> s' r = removeField f (s r)
      \<and> js_keys (index_fields (s' r)) = remove1 f (js_keys (index_fields (s r)))"
    if exceeding: "fieldsExceeding opts (s r) \<noteq> []"
  proof -
    from simplifyIndex_removes [OF step exceeding] assms(3,5)
    obtain f where f: "f \<in> set (fieldsExceeding opts (s r))"
      "\<forall>g \<in> set (fieldsToExamine (s r)).
         the (field_reduction (s r) g) \<le> the (field_reduction (s r) f)"
      "s' r = removeField f (s r)"
      by auto
    have "js_keys (index_fields (removeField f (s r))) = remove1 f (js_keys (index_fields (s r)))"
      using assms(4) by (simp add: removeField_def js_keys_js_delete filter_neq_remove1)
    then show ?thesis using f by auto
  qed
  show ?thesis using examined unchanged removed by blast
qed

text \<open>
  Scenario S5 as the witness: reductions 0.33 and 0.75 with the threshold 0.7; the pass
  removes \<open>birthday\<close>.
\<close>

theorem C3_one_field_per_pass_witness:
  "simplification_pass default_options (\<lambda>r. name_birthday_index (33 / 100) (75 / 100))
     [\<lparr> profile = first_observation, reducedIndexes = [0] \<rparr>]
   = Inr ((\<lambda>r. name_birthday_index (33 / 100) (75 / 100))
            (0 := removeField ''birthday'' (name_birthday_index (33 / 100) (75 / 100))), True)
   \<and> fieldsExceeding default_options (name_birthday_index (33 / 100) (75 / 100)) = [''birthday'']
   \<and> (\<exists>f \<in> set (fieldsExceeding default_options (name_birthday_index (33 / 100) (75 / 100))).
        js_keys (index_fields (removeField ''birthday'' (name_birthday_index (33 / 100) (75 / 100))))
        = remove1 f (js_keys (index_fields (name_birthday_index (33 / 100) (75 / 100)))))"
proof -
  let ?i = "name_birthday_index (33 / 100) (75 / 100)"
  let ?s = "\<lambda>r::nat. ?i"
  have pass: "simplification_pass default_options ?s [\<lparr> profile = first_observation, reducedIndexes = [0] \<rparr>]
      = Inr (?s(0 := removeField ''birthday'' ?i), True)"
    by (simp add: simplification_pass_def uniq_def uniq_by_def simplifyIndex_def fieldsExceeding_def
        fieldsToExamine_def sortFields_def field_reduction_def name_birthday_index_def
        MongoIndex_new_def js_object_of_def js_keys_def difference_def default_options_def
        underscore_max_def removeField_def js_delete_def)
  have exceeding: "fieldsExceeding default_options ?i = [''birthday'']"
    by code_simp
  have keys: "length (js_keys (index_fields (?s 0))) > 1" "distinct (js_keys (index_fields (?s 0)))"
    "[] \<notin> set (js_keys (index_fields (?s 0)))"
    by (simp_all add: name_birthday_index_def MongoIndex_new_def js_object_of_def js_keys_def)
  have "0 \<in> set (concat (map reducedIndexes [\<lparr> profile = first_observation, reducedIndexes = [0] \<rparr>]))"
    by simp
  from C3_one_field_per_pass [OF pass this keys] exceeding
  show ?thesis using pass by auto
qed

section \<open>The order of the fields of an optimized index\<close>



section \<open>Sort directions in an optimized index\<close>

text \<open>
  C8. Every sort direction of a profile should appear in the optimized index multiplied by
  the sign of the first sort key's direction. For the query \<open>{age: {$gt: 21}}\<close> sorted by
  \<open>{name: 1, age: -1}\<close> the index should be \<open>{name: 1, age: -1}\<close>. The getter returns
  \<open>{name: 1, age: 1}\<close>: the loop over the range fields (lines 244 to 247) sets \<open>age\<close> to 1
  after the sort loop has set it to -1.
\<close>

theorem C8_range_field_loses_its_sort_direction:
  "optimizedIndexes default_options (Some adults_statistics) adults_profile
   = Inr [MongoIndex_new [(''name'', Dir 1), (''age'', Dir 1)] ''users'' None]"
  by code_simp

section \<open>One compound index for each array prefix\<close>




text \<open>
  With three arrays the index made for one array prefix holds the fields of the other
  two arrays: the test of lines 220 to 222 keeps the fields that do \<^emph>\<open>not\<close> lie under the
  prefix.
\<close>

lemma three_arrays_two_in_each_index:
  "optimizedIndexes default_options (Some three_arrays_statistics) three_arrays_profile
   = Inr [MongoIndex_new [(''statuses.date'', Dir 1), (''names.first'', Dir 1)] ''users'' None,
          MongoIndex_new [(''tags.label'', Dir 1), (''names.first'', Dir 1)] ''users'' None,
          MongoIndex_new [(''tags.label'', Dir 1), (''statuses.date'', Dir 1)] ''users'' None]"
  by code_simp

section \<open>Prefix reduction\<close>

text \<open>
  C2 says that after \<open>reduceIndexes\<close> no candidate index is an index-prefix of another
  candidate of the same collection, two candidates of one profile included, and that two
  candidates with pointwise-equal sequences are one shared object. The loop compares an index
  with the indexes of the other profiles only (\<open>rhsQueryN != lhsQueryN\<close>): a single profile
  whose candidates are \<open>(x)\<close> and \<open>(x, y)\<close> keeps both, the first a prefix of the second.
\<close>

theorem C2_prefix_within_one_profile:
  "map_option (\<lambda>r. (map reducedIndexes (snd r), isIndexPrefixOf (fst r 0) (fst r 1)))
     (reduceIndexes xyz_store two_candidates_profile)
   = Some ([[0, 1]], True)"
  by code_simp

text \<open>
  C2, between profiles and within one: when \<open>reduceIndexes\<close> returns, the profiles are the
  ones it was given, in their order; a candidate of one profile is never an index-prefix of a
  candidate of a different profile of the same collection; and two candidates at different
  positions of one profile's list never have pointwise-equal sequences.
\<close>

theorem C2_no_prefix_between_profiles:
  assumes "reduceIndexes s ps = Some (s', ps')"
  shows "map profile ps' = map profile ps
    \<and> (\<forall>i < length ps'. \<forall>j < length ps'.
          i \<noteq> j \<and> collectionName (profile (ps' ! i)) = collectionName (profile (ps' ! j)) \<longrightarrow>
          (\<forall>a \<in> set (reducedIndexes (ps' ! i)). \<forall>b \<in> set (reducedIndexes (ps' ! j)).
             \<not> isIndexPrefixOf (s' a) (s' b)))
    \<and> (\<forall>i < length ps'. \<forall>m < length (reducedIndexes (ps' ! i)).
          \<forall>n < length (reducedIndexes (ps' ! i)).
             m \<noteq> n \<longrightarrow> \<not> isSameAs (s' (reducedIndexes (ps' ! i) ! m)) (s' (reducedIndexes (ps' ! i) ! n)))"
proof -
  let ?start = "map (\<lambda>queryProfile. queryProfile
                   \<lparr> reducedIndexes := remove_duplicates s (reducedIndexes queryProfile) \<rparr>) ps"
  from assms have loop: "reduce_loop s ?start = Some ps'"
    and store: "s' = (\<lambda>index. (s index) \<lparr> knownQueryProfiles := known_profiles ps' index \<rparr>)"
    by (auto simp: reduceIndexes_def split: option.splits)
  have fields: "index_fields (s' a) = index_fields (s a)" for a
    by (simp add: store)
  have prefix: "isIndexPrefixOf (s' a) (s' b) = isIndexPrefixOf (s a) (s b)" for a b
    by (simp add: isIndexPrefixOf_fields fields)
  have same: "isSameAs (s' a) (s' b) = isSameAs (s a) (s b)" for a b
    by (simp add: isSameAs_fields fields)
  from reduce_loop_last_round [OF loop] obtain q where
    pass: "reduce_pass s q = (ps', False)" and "map profile q = map profile ?start"
    by blast
  have "map profile ps' = map profile q"
    using quiet_pass_shape [OF pass] by simp
  then have profiles: "map profile ps' = map profile ps"
    using \<open>map profile q = map profile ?start\<close> by (simp add: comp_def)
  have between: "\<not> isIndexPrefixOf (s' a) (s' b)"
    if "i < length ps'" "j < length ps'" "i \<noteq> j"
      "collectionName (profile (ps' ! i)) = collectionName (profile (ps' ! j))"
      "a \<in> set (reducedIndexes (ps' ! i))" "b \<in> set (reducedIndexes (ps' ! j))" for i j a b
    using quiet_pass_prefix_free [OF pass that] by (simp add: prefix)
  have within: "\<not> isSameAs (s' (reducedIndexes (ps' ! i) ! m)) (s' (reducedIndexes (ps' ! i) ! n))"
    if "i < length ps'" "m < length (reducedIndexes (ps' ! i))"
      "n < length (reducedIndexes (ps' ! i))" "m \<noteq> n" for i m n
  proof
    let ?l = "map (\<lambda>a. canonicalString (s a)) (reducedIndexes (ps' ! i))"
    assume "isSameAs (s' (reducedIndexes (ps' ! i) ! m)) (s' (reducedIndexes (ps' ! i) ! n))"
    then have "isSameAs (s (reducedIndexes (ps' ! i) ! m)) (s (reducedIndexes (ps' ! i) ! n))"
      by (simp add: same)
    then have "?l ! m = ?l ! n"
      using that(2,3) by (simp add: same_canonicalString)
    moreover have "distinct ?l"
      using quiet_pass_no_duplicates [OF pass that(1)] .
    ultimately have "m = n"
      using that(2,3) nth_eq_iff_index_eq [of ?l m n] by simp
    then show False
      using that(4) by simp
  qed
  show ?thesis
    using profiles between within by blast
qed

theorem C2_no_prefix_between_profiles_witness:
  "\<exists>s' ps'. reduceIndexes xyz_store S4_profiles = Some (s', ps')
     \<and> map reducedIndexes ps' = [[2], [2], [2]]
     \<and> map profile ps' = map profile S4_profiles
     \<and> collectionName (profile (ps' ! 0)) = collectionName (profile (ps' ! 1))
     \<and> \<not> isIndexPrefixOf (s' (hd (reducedIndexes (ps' ! 0)))) (s' (hd (reducedIndexes (ps' ! 1))))"
proof -
  have "map_option (\<lambda>r. map reducedIndexes (snd r)) (reduceIndexes xyz_store S4_profiles)
        = Some [[2], [2], [2]]"
    by code_simp
  then obtain s' ps' where result: "reduceIndexes xyz_store S4_profiles = Some (s', ps')"
    and lists: "map reducedIndexes ps' = [[2], [2], [2]]"
    by auto
  note claim = C2_no_prefix_between_profiles [OF result]
  have profiles: "map profile ps' = map profile S4_profiles"
    using claim by simp
  have len: "length ps' = 3"
    using lists by (metis length_map length_Cons list.size(3) numeral_3_eq_3)
  have at: "reducedIndexes (ps' ! 0) = [2]" "reducedIndexes (ps' ! 1) = [2]"
    using lists len by (metis nth_map nth_Cons_0 zero_less_numeral, metis One_nat_def nth_map nth_Cons_0 nth_Cons_Suc one_less_numeral_iff semiring_norm(77))
  have "profile (ps' ! 0) = profile (S4_profiles ! 0)" "profile (ps' ! 1) = profile (S4_profiles ! 1)"
    using profiles len same_profile_at [of ps' S4_profiles] by (simp_all add: S4_profiles_def)
  then have coll: "collectionName (profile (ps' ! 0)) = collectionName (profile (ps' ! 1))"
    by (simp add: S4_profiles_def profile_on_c_def collectionName_def)
  have "\<not> isIndexPrefixOf (s' (hd (reducedIndexes (ps' ! 0)))) (s' (hd (reducedIndexes (ps' ! 1))))"
    using claim [THEN conjunct2, THEN conjunct1, THEN spec, of 0, THEN mp, THEN spec, of 1] len coll at
    by simp
  with result lists profiles coll
  have "reduceIndexes xyz_store S4_profiles = Some (s', ps')
     \<and> map reducedIndexes ps' = [[2], [2], [2]]
     \<and> map profile ps' = map profile S4_profiles
     \<and> collectionName (profile (ps' ! 0)) = collectionName (profile (ps' ! 1))
     \<and> \<not> isIndexPrefixOf (s' (hd (reducedIndexes (ps' ! 0)))) (s' (hd (reducedIndexes (ps' ! 1))))"
    by simp
  then show ?thesis
    by (rule_tac x = s' in exI, rule_tac x = ps' in exI)
qed

text \<open>
  The shared object of the second half of C2 is not reached with three profiles that each
  hold an object of their own for the index \<open>{a: 1}\<close>: the first profile takes the object of
  the second, the second the object of the third, and no round sets \<open>changed\<close>, so the first
  profile is left with an object that the other two do not use.
\<close>

lemma three_profiles_two_objects:
  "map_option (\<lambda>r. (map reducedIndexes (snd r),
                     isSameAs (fst r 1) (fst r 2),
                     map (\<lambda>index. length (knownQueryProfiles (fst r index))) [0, 1, 2]))
     (reduceIndexes same_index_store same_index_profiles)
   = Some ([[1], [2], [2]], True, [0, 1, 2])"
  by code_simp

end
